theory Spec2Isabelle
  imports Main
begin

section \<open>Values, errors and foreign objects\<close>

text \<open>
  The values callers hand to the mediator and the mediator keeps in its state bag. The
  source stores years there; the slider handler feeds \<open>parseInt\<close> results, which are
  integers or \<open>NaN\<close>; \<open>undefined\<close> is what a missing argument is. Numbers are carried as
  integers: the mediator does no arithmetic on them, it only compares them in \<open>updateYear\<close>.
\<close>

datatype jsval = Undefined | NaN | Num int

text \<open>
  What \<open>this.state[key]\<close> reads. The state is an object literal, so its prototype is
  \<open>Object.prototype\<close>: a key the state owns reads as the value stored under it; a key it does
  not own reads as the member \<open>Object.prototype\<close> has under that name (a function, or for
  \<open>__proto__\<close> the prototype object itself), and as \<open>undefined\<close> when there is none.
\<close>

datatype reading = Value jsval | Inherited string

text \<open>The property names of \<open>Object.prototype\<close> in a browser.\<close>

definition object_prototype_keys :: "string list" where
  "object_prototype_keys =
     [''constructor'', ''__defineGetter__'', ''__defineSetter__'', ''hasOwnProperty'',
      ''__lookupGetter__'', ''__lookupSetter__'', ''isPrototypeOf'', ''propertyIsEnumerable'',
      ''toString'', ''valueOf'', ''__proto__'', ''toLocaleString'']"

text \<open>
  The relational operators \<open>>=\<close> and \<open><=\<close> of the source on these values: both
  operands are converted to numbers, \<open>undefined\<close> converts to \<open>NaN\<close>, and every comparison
  with \<open>NaN\<close> is false.
\<close>

fun js_ge :: "jsval \<Rightarrow> jsval \<Rightarrow> bool" where
  "js_ge (Num a) (Num b) = (a \<ge> b)"
| "js_ge _ _ = False"

fun js_le :: "jsval \<Rightarrow> jsval \<Rightarrow> bool" where
  "js_le (Num a) (Num b) = (a \<le> b)"
| "js_le _ _ = False"

text \<open>
  What a \<open>throw\<close> carries: the two built-in errors the mediator's own statements can raise,
  and an error raised by foreign code (a view, a listener, the network, the chart library).
\<close>

datatype js_error = TypeError | SyntaxError | Thrown nat

text \<open>
  A member of a foreign object as the mediator sees it: missing, present but not a
  function, or a function that returns (\<open>None\<close>) or throws when called. Foreign functions
  (the members of a view, the listener callbacks) are opaque: what they do is recorded as
  a call in the trace. The calls a listener makes back into the registry of listeners
  while it is notified are described with \<open>triggerListeners_reacting\<close> below; other calls
  back into the mediator from inside a call are not described.
\<close>

datatype member = Absent | NotFunction | Function "js_error option"

text \<open>
  A candidate view handle: a falsy value (\<open>undefined\<close>, \<open>null\<close>, ...) or an object with an
  identity and its \<open>signal\<close> and \<open>run\<close> members.
\<close>

datatype handle = Falsy | Obj (obj_id: nat) (signal: member) (run: member)

text \<open>The test \<open>view && typeof view.signal === 'function'\<close> of the source.\<close>

fun is_function :: "member \<Rightarrow> bool" where
  "is_function (Function _) = True"
| "is_function _ = False"

fun has_signal :: "handle \<Rightarrow> bool" where
  "has_signal Falsy = False"
| "has_signal (Obj _ s _) = is_function s"

text \<open>A listener callback: its identity and whether calling it throws.\<close>

datatype callback = Callback nat "js_error option"

text \<open>The objects handed to listeners: \<open>{oldYear, newYear}\<close> and \<open>{key, oldValue, newValue}\<close>.\<close>

datatype payload =
    YearData (data_oldYear: jsval) (data_newYear: jsval)
  | StateData (data_key: string) (data_oldValue: reading) (data_newValue: jsval)

text \<open>The console messages of the source, with the values interpolated into them.\<close>

datatype message =
    StateInitialized
  | YearUpdated jsval jsval
  | ViewRegistered string
  | InvalidView string
  | ViewUnregistered string
  | ErrorUpdatingView string js_error
  | ErrorInListener string js_error
  | VisualizationLoaded string
  | ErrorLoadingVisualization string js_error

text \<open>Everything the mediator does to the outside, in the order it does it.\<close>

datatype event =
    SignalCall nat string jsval
  | RunCall nat
  | ListenerCall callback payload
  | ConsoleLog message
  | ConsoleError message

section \<open>Object graphs\<close>

text \<open>
  Chart configurations are mutable object graphs. A heap value is a primitive or a
  reference to a cell; a cell is a plain object (its properties in insertion order) or an
  array (its elements, and the named properties set on it).
\<close>

type_synonym addr = nat

datatype hval =
    VUndefined | VNull | VBool bool | VNum int | VNaN | VStr string | VRef addr

datatype cell =
    ObjCell "(string \<times> hval) list"
  | ArrCell "hval list" "(string \<times> hval) list"

type_synonym heap = "cell list"

section \<open>The mediator and its surroundings\<close>

text \<open>
  \<open>state\<close>, \<open>views\<close> and \<open>listeners\<close> are the three fields of \<open>DashboardState\<close>; a \<open>Map\<close>
  keeps its entries in insertion order, so both maps are association lists. The other
  fields are what the methods act on outside the object: the two DOM elements looked up by
  id (\<open>None\<close> when the page has no such element), the heap of object graphs, and the trace
  of calls and console output.
\<close>

record world =
  state :: "(string \<times> jsval) list"
  views :: "(string \<times> handle) list"
  listeners :: "(string \<times> callback list) list"
  yearSlider :: "jsval option"
  yearDisplay :: "jsval option"
  heap :: heap
  effects :: "event list"

type_synonym 'a result = "(js_error + 'a) \<times> world"

text \<open>\<open>Map.prototype.set\<close>: replace the value of an existing key where it stands, or append.\<close>

fun map_set :: "'k \<Rightarrow> 'v \<Rightarrow> ('k \<times> 'v) list \<Rightarrow> ('k \<times> 'v) list" where
  "map_set k v [] = [(k, v)]"
| "map_set k v ((k', v') # kvs) =
     (if k' = k then (k, v) # kvs else (k', v') # map_set k v kvs)"


definition emit :: "event \<Rightarrow> world \<Rightarrow> world" where
  "emit e w = w\<lparr>effects := effects w @ [e]\<rparr>"

text \<open>Statement sequencing: an exception in the first statement skips the second.\<close>

definition andThen :: "(world \<Rightarrow> unit result) \<Rightarrow> (world \<Rightarrow> unit result) \<Rightarrow> world \<Rightarrow> unit result" where
  "andThen m k w = (case m w of (Inl e, w') \<Rightarrow> (Inl e, w') | (Inr _, w') \<Rightarrow> k w')"

text \<open>\<open>try { body } catch (error) { handler }\<close>.\<close>

definition tryCatch :: "(world \<Rightarrow> 'a result) \<Rightarrow> (js_error \<Rightarrow> world \<Rightarrow> 'a result) \<Rightarrow> world \<Rightarrow> 'a result" where
  "tryCatch body handler w = (case body w of (Inl e, w') \<Rightarrow> handler e w' | (Inr u, w') \<Rightarrow> (Inr u, w'))"

text \<open>\<open>forEach\<close>: the callback runs on each element in order; an exception leaving it ends the loop.\<close>

fun forEach :: "('a \<Rightarrow> world \<Rightarrow> unit result) \<Rightarrow> 'a list \<Rightarrow> world \<Rightarrow> unit result" where
  "forEach f [] w = (Inr (), w)"
| "forEach f (x # xs) w = (case f x w of (Inl e, w') \<Rightarrow> (Inl e, w') | (Inr _, w') \<Rightarrow> forEach f xs w')"

definition console_log :: "message \<Rightarrow> world \<Rightarrow> unit result" where
  "console_log m w = (Inr (), emit (ConsoleLog m) w)"

definition console_error :: "message \<Rightarrow> world \<Rightarrow> unit result" where
  "console_error m w = (Inr (), emit (ConsoleError m) w)"

text \<open>
  Calling a member of a foreign object: calling what is not a function is a \<open>TypeError\<close>
  and no call happens; a function is called (the call is recorded) and returns or throws.
\<close>

definition call_member :: "member \<Rightarrow> event \<Rightarrow> world \<Rightarrow> unit result" where
  "call_member m ev w =
     (case m of
        Function None \<Rightarrow> (Inr (), emit ev w)
      | Function (Some e) \<Rightarrow> (Inl e, emit ev w)
      | _ \<Rightarrow> (Inl TypeError, w))"

definition call_callback :: "callback \<Rightarrow> payload \<Rightarrow> world \<Rightarrow> unit result" where
  "call_callback cb data w =
     (case cb of
        Callback _ None \<Rightarrow> (Inr (), emit (ListenerCall cb data) w)
      | Callback _ (Some e) \<Rightarrow> (Inl e, emit (ListenerCall cb data) w))"

text \<open>
  The three properties the source reads by name: \<open>this.state.currentYear\<close>,
  \<open>this.state.startYear\<close> and \<open>this.state.endYear\<close>. \<open>Object.prototype\<close> has no member of
  these names, so each reads as the value the state owns under it, or as \<open>undefined\<close>.
\<close>

datatype year_key = CurrentYear | StartYear | EndYear

fun key_name :: "year_key \<Rightarrow> string" where
  "key_name CurrentYear = ''currentYear''"
| "key_name StartYear = ''startYear''"
| "key_name EndYear = ''endYear''"

definition state_year :: "year_key \<Rightarrow> world \<Rightarrow> jsval" where
  "state_year k w = (case map_of (state w) (key_name k) of None \<Rightarrow> Undefined | Some v \<Rightarrow> v)"

text \<open>
  \<open>getValue(key)\<close>, which is \<open>this.state[key]\<close> for any key: an own property first, then
  \<open>Object.prototype\<close>.
\<close>

definition getValue :: "string \<Rightarrow> world \<Rightarrow> reading" where
  "getValue key w =
     (case map_of (state w) key of
        Some v \<Rightarrow> Value v
      | None \<Rightarrow> if key \<in> set object_prototype_keys then Inherited key else Value Undefined)"

text \<open>
  \<open>this.state[key] = value\<close>. Every member of \<open>Object.prototype\<close> but one is a writable
  data property, so the assignment gives the state an own property of that name. The one is
  \<open>__proto__\<close>, an accessor: unless the state owns a property of that name, the assignment
  runs the inherited setter, which ignores a value that is neither an object nor \<open>null\<close>
  and stores nothing.
\<close>

definition state_assign :: "string \<Rightarrow> jsval \<Rightarrow> (string \<times> jsval) list \<Rightarrow> (string \<times> jsval) list" where
  "state_assign key value st =
     (if key = ''__proto__'' \<and> map_of st key = None then st else map_set key value st)"

definition getState :: "world \<Rightarrow> (string \<times> jsval) list" where
  "getState w = state w"

text \<open>The constructor's object, on a page with the given elements and heap.\<close>

definition constructor :: "jsval option \<Rightarrow> jsval option \<Rightarrow> heap \<Rightarrow> world" where
  "constructor slider display h =
     \<lparr> state = [(''currentYear'', Num 2010), (''startYear'', Num 2005), (''endYear'', Num 2025)],
       views = [], listeners = [],
       yearSlider = slider, yearDisplay = display, heap = h, effects = [] \<rparr>"

section \<open>Views\<close>

text \<open>
  The two statements \<open>view.signal('globalYear', this.state.currentYear); view.run();\<close>
  that \<open>registerView\<close> and \<open>updateAllViews\<close> share.
\<close>

definition push_year :: "handle \<Rightarrow> world \<Rightarrow> unit result" where
  "push_year view =
     andThen (\<lambda>w. call_member (signal view)
                    (SignalCall (obj_id view) ''globalYear'' (state_year CurrentYear w)) w)
             (call_member (run view) (RunCall (obj_id view)))"

definition registerView :: "string \<Rightarrow> handle \<Rightarrow> world \<Rightarrow> unit result" where
  "registerView name view =
     (if has_signal view then
        andThen (\<lambda>w. (Inr (), w\<lparr>views := map_set name view (views w)\<rparr>))
       (andThen (push_year view)
                (console_log (ViewRegistered name)))
      else console_error (InvalidView name))"


definition updateAllViews :: "world \<Rightarrow> unit result" where
  "updateAllViews w =
     forEach (\<lambda>(name, view).
        tryCatch
          (if has_signal view then push_year view else (\<lambda>w. (Inr (), w)))
          (\<lambda>error. console_error (ErrorUpdatingView name error)))
       (views w) w"

section \<open>Listeners\<close>

definition addEventListener :: "string \<Rightarrow> callback \<Rightarrow> world \<Rightarrow> world" where
  "addEventListener event cb w =
     (let ls = (case map_of (listeners w) event of
                  None \<Rightarrow> map_set event [] (listeners w)
                | Some _ \<Rightarrow> listeners w);
          callbacks = (case map_of ls event of None \<Rightarrow> [] | Some cbs \<Rightarrow> cbs)
      in w\<lparr>listeners := map_set event (callbacks @ [cb]) ls\<rparr>)"

definition removeEventListener :: "string \<Rightarrow> callback \<Rightarrow> world \<Rightarrow> world" where
  "removeEventListener event cb w =
     (case map_of (listeners w) event of
        None \<Rightarrow> w
      | Some callbacks \<Rightarrow> w\<lparr>listeners := map_set event (remove1 cb callbacks) (listeners w)\<rparr>)"

definition triggerListeners :: "string \<Rightarrow> payload \<Rightarrow> world \<Rightarrow> unit result" where
  "triggerListeners event data w =
     (case map_of (listeners w) event of
        None \<Rightarrow> (Inr (), w)
      | Some callbacks \<Rightarrow>
          forEach (\<lambda>cb.
             tryCatch (call_callback cb data)
               (\<lambda>error. console_error (ErrorInListener event error)))
            callbacks w)"

text \<open>The callbacks registered for an event, in registration order.\<close>

definition listeners_for :: "string \<Rightarrow> world \<Rightarrow> callback list" where
  "listeners_for event w = (case map_of (listeners w) event of None \<Rightarrow> [] | Some cbs \<Rightarrow> cbs)"

text \<open>
  A listener is foreign code, and while it is notified it may call \<open>addEventListener\<close> and
  \<open>removeEventListener\<close> itself. Both act on the array object that \<open>triggerListeners\<close> is
  walking (\<open>push\<close> and \<open>splice\<close> change it in place), and \<open>Array.prototype.forEach\<close> reads
  that array afresh at every index: it fixes the number of indices when it starts, visits
  index \<open>k\<close> only while the array still has one, and calls what stands there at that
  moment. A listener that removes itself moves its successors down by one, so the next of
  them is passed over. \<open>does cb\<close> is what the callback \<open>cb\<close> does to the registry each time
  it is called, before it returns or throws; \<open>triggerListeners\<close> above is the loop for
  callbacks that do nothing to it. Listeners that start another update from inside a
  notification are not described.
\<close>

datatype reaction = Subscribe string callback | Unsubscribe string callback


fun react :: "reaction \<Rightarrow> world \<Rightarrow> world" where
  "react (Subscribe event cb) w = addEventListener event cb w"
| "react (Unsubscribe event cb) w = removeEventListener event cb w"

definition call_reacting :: "(callback \<Rightarrow> reaction list) \<Rightarrow> callback \<Rightarrow> payload \<Rightarrow> world \<Rightarrow> unit result" where
  "call_reacting does cb data w =
     (case call_callback cb data w of
        (r, w') \<Rightarrow> (r, foldl (\<lambda>w'' r. react r w'') w' (does cb)))"

text \<open>
  \<open>forEach\<close> on the array registered for \<open>event\<close>, from index \<open>k\<close>, with \<open>n\<close> indices left
  to visit.
\<close>

fun forEach_live :: "(callback \<Rightarrow> world \<Rightarrow> unit result) \<Rightarrow> string \<Rightarrow> nat \<Rightarrow> nat \<Rightarrow> world \<Rightarrow> unit result" where
  "forEach_live f event k 0 w = (Inr (), w)"
| "forEach_live f event k (Suc n) w =
     (if k < length (listeners_for event w) then
        (case f (listeners_for event w ! k) w of
           (Inl e, w') \<Rightarrow> (Inl e, w')
         | (Inr _, w') \<Rightarrow> forEach_live f event (Suc k) n w')
      else forEach_live f event (Suc k) n w)"

definition triggerListeners_reacting ::
  "(callback \<Rightarrow> reaction list) \<Rightarrow> string \<Rightarrow> payload \<Rightarrow> world \<Rightarrow> unit result" where
  "triggerListeners_reacting does event data w =
     (case map_of (listeners w) event of
        None \<Rightarrow> (Inr (), w)
      | Some callbacks \<Rightarrow>
          forEach_live (\<lambda>cb.
             tryCatch (call_reacting does cb data)
               (\<lambda>error. console_error (ErrorInListener event error)))
            event 0 (length callbacks) w)"

section \<open>Changing the state\<close>

definition updateYear :: "jsval \<Rightarrow> world \<Rightarrow> unit result" where
  "updateYear newYear w =
     (if js_ge newYear (state_year StartYear w) \<and> js_le newYear (state_year EndYear w) then
        let oldYear = state_year CurrentYear w;
            w1 = w\<lparr>state := map_set ''currentYear'' newYear (state w)\<rparr>;
            w2 = (case yearDisplay w1 of
                    None \<Rightarrow> w1
                  | Some _ \<Rightarrow> w1\<lparr>yearDisplay := Some newYear\<rparr>)
        in andThen updateAllViews
          (andThen (triggerListeners ''yearChange'' (YearData oldYear newYear))
                   (console_log (YearUpdated oldYear newYear))) w2
      else (Inr (), w))"

text \<open>\<open>updateYear\<close> with listeners that change the registry while they are notified.\<close>

definition updateYear_reacting :: "(callback \<Rightarrow> reaction list) \<Rightarrow> jsval \<Rightarrow> world \<Rightarrow> unit result" where
  "updateYear_reacting does newYear w =
     (if js_ge newYear (state_year StartYear w) \<and> js_le newYear (state_year EndYear w) then
        let oldYear = state_year CurrentYear w;
            w1 = w\<lparr>state := map_set ''currentYear'' newYear (state w)\<rparr>;
            w2 = (case yearDisplay w1 of
                    None \<Rightarrow> w1
                  | Some _ \<Rightarrow> w1\<lparr>yearDisplay := Some newYear\<rparr>)
        in andThen updateAllViews
          (andThen (triggerListeners_reacting does ''yearChange'' (YearData oldYear newYear))
                   (console_log (YearUpdated oldYear newYear))) w2
      else (Inr (), w))"

definition setValue :: "string \<Rightarrow> jsval \<Rightarrow> world \<Rightarrow> unit result" where
  "setValue key value w =
     (let oldValue = getValue key w;
          w1 = w\<lparr>state := state_assign key value (state w)\<rparr>
      in andThen (if key = ''currentYear'' then updateAllViews else (\<lambda>w. (Inr (), w)))
                 (triggerListeners ''stateChange'' (StateData key oldValue value)) w1)"

text \<open>
  \<open>init\<close> binds the controls when both are on the page; the handler it installs on the
  slider in that case is \<open>slider_input\<close>, whose argument is the result of \<open>parseInt\<close> on
  the slider's text.
\<close>

definition init :: "world \<Rightarrow> unit result" where
  "init w =
     console_log StateInitialized
       (case (yearSlider w, yearDisplay w) of
          (Some _, Some _) \<Rightarrow>
            w\<lparr>yearSlider := Some (state_year CurrentYear w),
              yearDisplay := Some (state_year CurrentYear w)\<rparr>
        | _ \<Rightarrow> w)"

definition slider_input :: "jsval \<Rightarrow> world \<Rightarrow> unit result" where
  "slider_input parsed w =
     (case (yearSlider w, yearDisplay w) of
        (Some _, Some _) \<Rightarrow> updateYear parsed w
      | _ \<Rightarrow> (Inr (), w))"

section \<open>Configuration documents\<close>

text \<open>
  A JSON document, as \<open>JSON.stringify\<close> writes it and \<open>JSON.parse\<close> and
  \<open>response.json()\<close> read it. A document stands for the value it denotes: an object has
  each key once.
\<close>

datatype json =
    JNull | JBool bool | JNum int | JStr string
  | JArr "json list" | JObj "(string \<times> json) list"

text \<open>
  The cell a reference points to. References are made by allocation only, so one that
  points outside the heap does not arise; where it would be used, the operations below
  raise a \<open>TypeError\<close>.
\<close>

definition cell_at :: "heap \<Rightarrow> addr \<Rightarrow> cell option" where
  "cell_at h a = (if a < length h then Some (h ! a) else None)"

text \<open>
  \<open>JSON.stringify\<close>: \<open>undefined\<close> has no text (\<open>None\<close>), \<open>NaN\<close> is written
  \<open>null\<close>, a property whose value has no text is left out, an array element without
  text is written \<open>null\<close>, and the named properties of an array are not written. The
  first argument bounds the nesting: a walk through more nested references than the heap
  has cells has met one cell twice, which is the circular structure \<open>JSON.stringify\<close>
  rejects with a \<open>TypeError\<close>.
\<close>

fun stringify :: "nat \<Rightarrow> heap \<Rightarrow> hval \<Rightarrow> js_error + json option"
  and stringify_elems :: "nat \<Rightarrow> heap \<Rightarrow> hval list \<Rightarrow> js_error + json list"
  and stringify_props :: "nat \<Rightarrow> heap \<Rightarrow> (string \<times> hval) list \<Rightarrow> js_error + (string \<times> json) list"
where
  "stringify n h VUndefined = Inr None"
| "stringify n h VNull = Inr (Some JNull)"
| "stringify n h (VBool b) = Inr (Some (JBool b))"
| "stringify n h (VNum i) = Inr (Some (JNum i))"
| "stringify n h VNaN = Inr (Some JNull)"
| "stringify n h (VStr s) = Inr (Some (JStr s))"
| "stringify 0 h (VRef a) = Inl TypeError"
| "stringify (Suc n) h (VRef a) =
     (case cell_at h a of
        None \<Rightarrow> Inl TypeError
      | Some (ObjCell ps) \<Rightarrow>
          (case stringify_props n h ps of Inl e \<Rightarrow> Inl e | Inr js \<Rightarrow> Inr (Some (JObj js)))
      | Some (ArrCell xs ps) \<Rightarrow>
          (case stringify_elems n h xs of Inl e \<Rightarrow> Inl e | Inr js \<Rightarrow> Inr (Some (JArr js))))"
| "stringify_elems n h [] = Inr []"
| "stringify_elems n h (x # xs) =
     (case stringify n h x of
        Inl e \<Rightarrow> Inl e
      | Inr j \<Rightarrow>
          (case stringify_elems n h xs of
             Inl e \<Rightarrow> Inl e
           | Inr js \<Rightarrow> Inr ((case j of None \<Rightarrow> JNull | Some d \<Rightarrow> d) # js)))"
| "stringify_props n h [] = Inr []"
| "stringify_props n h ((k, x) # ps) =
     (case stringify n h x of
        Inl e \<Rightarrow> Inl e
      | Inr j \<Rightarrow>
          (case stringify_props n h ps of
             Inl e \<Rightarrow> Inl e
           | Inr js \<Rightarrow> Inr (case j of None \<Rightarrow> js | Some d \<Rightarrow> (k, d) # js)))"

definition JSON_stringify :: "heap \<Rightarrow> hval \<Rightarrow> js_error + json option" where
  "JSON_stringify h v = stringify (length h) h v"

text \<open>
  \<open>JSON.parse\<close>: every array and object of the document becomes a new cell at the end
  of the heap, after the cells of its parts.
\<close>

fun parse :: "json \<Rightarrow> heap \<Rightarrow> hval \<times> heap"
  and parse_elems :: "json list \<Rightarrow> heap \<Rightarrow> hval list \<times> heap"
  and parse_props :: "(string \<times> json) list \<Rightarrow> heap \<Rightarrow> (string \<times> hval) list \<times> heap"
where
  "parse JNull h = (VNull, h)"
| "parse (JBool b) h = (VBool b, h)"
| "parse (JNum i) h = (VNum i, h)"
| "parse (JStr s) h = (VStr s, h)"
| "parse (JArr js) h = (case parse_elems js h of (xs, h') \<Rightarrow> (VRef (length h'), h' @ [ArrCell xs []]))"
| "parse (JObj fs) h = (case parse_props fs h of (ps, h') \<Rightarrow> (VRef (length h'), h' @ [ObjCell ps]))"
| "parse_elems [] h = ([], h)"
| "parse_elems (j # js) h =
     (case parse j h of (x, h1) \<Rightarrow> (case parse_elems js h1 of (xs, h2) \<Rightarrow> (x # xs, h2)))"
| "parse_props [] h = ([], h)"
| "parse_props ((k, j) # fs) h =
     (case parse j h of (x, h1) \<Rightarrow> (case parse_props fs h1 of (ps, h2) \<Rightarrow> ((k, x) # ps, h2)))"

section \<open>Reading and writing object graphs\<close>

text \<open>
  Property access as the source uses it, on the keys \<open>params\<close>, \<open>name\<close> and \<open>value\<close>,
  which no prototype defines for the values that occur here. Reading a property of
  \<open>undefined\<close> or \<open>null\<close> raises a \<open>TypeError\<close>; reading one of another primitive gives
  \<open>undefined\<close>. Class bodies are strict code, so assigning to a property of a primitive
  raises a \<open>TypeError\<close> as well.
\<close>

definition own_prop :: "(string \<times> hval) list \<Rightarrow> string \<Rightarrow> hval" where
  "own_prop ps k = (case map_of ps k of None \<Rightarrow> VUndefined | Some v \<Rightarrow> v)"

fun truthy :: "hval \<Rightarrow> bool" where
  "truthy VUndefined = False"
| "truthy VNull = False"
| "truthy (VBool b) = b"
| "truthy (VNum i) = (i \<noteq> 0)"
| "truthy VNaN = False"
| "truthy (VStr s) = (s \<noteq> [])"
| "truthy (VRef a) = True"

fun get_prop :: "heap \<Rightarrow> hval \<Rightarrow> string \<Rightarrow> js_error + hval" where
  "get_prop h VUndefined k = Inl TypeError"
| "get_prop h VNull k = Inl TypeError"
| "get_prop h (VRef a) k =
     (case cell_at h a of
        None \<Rightarrow> Inl TypeError
      | Some (ObjCell ps) \<Rightarrow> Inr (own_prop ps k)
      | Some (ArrCell xs ps) \<Rightarrow> Inr (own_prop ps k))"
| "get_prop h _ k = Inr VUndefined"

fun set_prop :: "heap \<Rightarrow> hval \<Rightarrow> string \<Rightarrow> hval \<Rightarrow> js_error + heap" where
  "set_prop h (VRef a) k v =
     (case cell_at h a of
        None \<Rightarrow> Inl TypeError
      | Some (ObjCell ps) \<Rightarrow> Inr (h[a := ObjCell (map_set k v ps)])
      | Some (ArrCell xs ps) \<Rightarrow> Inr (h[a := ArrCell xs (map_set k v ps)]))"
| "set_prop h _ k v = Inl TypeError"

text \<open>
  \<open>params.find(p => p.name === 'globalYear')\<close>: the first element whose \<open>name\<close> is the
  string \<open>globalYear\<close>, or \<open>undefined\<close>. Only an array has \<open>find\<close> and \<open>unshift\<close>; calling
  them on anything else raises a \<open>TypeError\<close>.
\<close>

fun find_param :: "heap \<Rightarrow> hval list \<Rightarrow> js_error + hval" where
  "find_param h [] = Inr VUndefined"
| "find_param h (p # ps) =
     (case get_prop h p ''name'' of
        Inl e \<Rightarrow> Inl e
      | Inr n \<Rightarrow> if n = VStr ''globalYear'' then Inr p else find_param h ps)"

fun array_find :: "heap \<Rightarrow> hval \<Rightarrow> js_error + hval" where
  "array_find h (VRef a) =
     (case cell_at h a of
        Some (ArrCell xs ps) \<Rightarrow> find_param h xs
      | _ \<Rightarrow> Inl TypeError)"
| "array_find h _ = Inl TypeError"

fun array_unshift :: "heap \<Rightarrow> hval \<Rightarrow> hval \<Rightarrow> js_error + heap" where
  "array_unshift h (VRef a) v =
     (case cell_at h a of
        Some (ArrCell xs ps) \<Rightarrow> Inr (h[a := ArrCell (v # xs) ps])
      | _ \<Rightarrow> Inl TypeError)"
| "array_unshift h _ v = Inl TypeError"

text \<open>
  Statements that act on the heap: they return a value or raise, and leave a heap behind
  in both cases.
\<close>

type_synonym 'a heap_op = "heap \<Rightarrow> (js_error + 'a) \<times> heap"

definition bindH :: "'a heap_op \<Rightarrow> ('a \<Rightarrow> 'b heap_op) \<Rightarrow> 'b heap_op" where
  "bindH m f h = (case m h of (Inl e, h') \<Rightarrow> (Inl e, h') | (Inr x, h') \<Rightarrow> f x h')"

definition returnH :: "'a \<Rightarrow> 'a heap_op" where
  "returnH x h = (Inr x, h)"

text \<open>
  \<open>JSON.parse(JSON.stringify(v))\<close>; \<open>JSON.parse\<close> of \<open>undefined\<close> raises a
  \<open>SyntaxError\<close>.
\<close>

definition json_clone :: "hval \<Rightarrow> hval heap_op" where
  "json_clone v h =
     (case JSON_stringify h v of
        Inl e \<Rightarrow> (Inl e, h)
      | Inr None \<Rightarrow> (Inl SyntaxError, h)
      | Inr (Some doc) \<Rightarrow> (case parse doc h of (v', h') \<Rightarrow> (Inr v', h')))"

definition read_prop :: "hval \<Rightarrow> string \<Rightarrow> hval heap_op" where
  "read_prop v k h = (get_prop h v k, h)"

definition assign_prop :: "hval \<Rightarrow> string \<Rightarrow> hval \<Rightarrow> unit heap_op" where
  "assign_prop v k x h = (case set_prop h v k x of Inl e \<Rightarrow> (Inl e, h) | Inr h' \<Rightarrow> (Inr (), h'))"

definition new_cell :: "cell \<Rightarrow> hval heap_op" where
  "new_cell c h = (Inr (VRef (length h)), h @ [c])"

fun to_hval :: "jsval \<Rightarrow> hval" where
  "to_hval Undefined = VUndefined"
| "to_hval NaN = VNaN"
| "to_hval (Num i) = VNum i"

section \<open>Preparing a configuration\<close>

text \<open>
  The body of \<open>prepareSpec\<close>, statement by statement, on the heap; \<open>prepareSpec\<close>
  itself reads \<open>this.state.currentYear\<close> and runs it on the heap of the world.
\<close>

definition prepare :: "jsval \<Rightarrow> hval \<Rightarrow> hval heap_op" where
  "prepare currentYear spec =
     bindH (json_clone spec) (\<lambda>preparedSpec.
     bindH (read_prop preparedSpec ''params'') (\<lambda>params.
     bindH (if \<not> truthy params
            then bindH (new_cell (ArrCell [] [])) (assign_prop preparedSpec ''params'')
            else returnH ()) (\<lambda>_.
     bindH (read_prop preparedSpec ''params'') (\<lambda>params.
     bindH (\<lambda>h. (array_find h params, h)) (\<lambda>globalYearParam.
     bindH (if truthy globalYearParam
            then assign_prop globalYearParam ''value'' (to_hval currentYear)
            else bindH (read_prop preparedSpec ''params'') (\<lambda>params.
                 bindH (new_cell (ObjCell [(''name'', VStr ''globalYear''),
                                           (''value'', to_hval currentYear)])) (\<lambda>param.
                 (\<lambda>h. case array_unshift h params param of
                         Inl e \<Rightarrow> (Inl e, h)
                       | Inr h' \<Rightarrow> (Inr (), h'))))) (\<lambda>_.
     returnH preparedSpec))))))"

definition prepareSpec :: "hval \<Rightarrow> world \<Rightarrow> hval result" where
  "prepareSpec spec w =
     (case prepare (state_year CurrentYear w) spec (heap w) of
        (r, h') \<Rightarrow> (r, w\<lparr>heap := h'\<rparr>))"

section \<open>Loading a visualization\<close>





section \<open>Sequences of operations\<close>

text \<open>
  The operations that write to the state: \<open>updateYear\<close>, \<open>setValue\<close>, and the slider
  handler, which calls \<open>updateYear\<close>. The world after an operation is kept whether or not
  the operation threw.
\<close>

datatype operation = UpdateYear jsval | SetValue string jsval | SliderInput jsval

fun perform :: "operation \<Rightarrow> world \<Rightarrow> world" where
  "perform (UpdateYear v) w = snd (updateYear v w)"
| "perform (SetValue k v) w = snd (setValue k v w)"
| "perform (SliderInput v) w = snd (slider_input v w)"

definition perform_all :: "operation list \<Rightarrow> world \<Rightarrow> world" where
  "perform_all ops w = foldl (\<lambda>w' op. perform op w') w ops"

text \<open>The invariant of the shared state: \<open>startYear <= currentYear <= endYear\<close>.\<close>

definition year_in_bounds :: "world \<Rightarrow> bool" where
  "year_in_bounds w =
     (js_le (state_year StartYear w) (state_year CurrentYear w) \<and>
      js_le (state_year CurrentYear w) (state_year EndYear w))"

fun writes_year_key :: "operation \<Rightarrow> bool" where
  "writes_year_key (SetValue k v) = (k = ''currentYear'' \<or> k = ''startYear'' \<or> k = ''endYear'')"
| "writes_year_key _ = False"

section \<open>Traces\<close>

text \<open>
  What one registered view sees of a fan-out carrying \<open>year\<close>, and what is reported for it:
  nothing when the handle fails the test of the source; otherwise the signal call, then
  the run call when the signal call returned, then the report of the error when either
  call threw (or \<open>run\<close> is not a function).
\<close>

definition view_events :: "jsval \<Rightarrow> string \<times> handle \<Rightarrow> event list" where
  "view_events year nv =
     (case nv of (name, view) \<Rightarrow>
        if has_signal view then
          SignalCall (obj_id view) ''globalYear'' year #
            (case signal view of
               Function (Some e) \<Rightarrow> [ConsoleError (ErrorUpdatingView name e)]
             | _ \<Rightarrow>
                 (case run view of
                    Function None \<Rightarrow> [RunCall (obj_id view)]
                  | Function (Some e) \<Rightarrow>
                      [RunCall (obj_id view), ConsoleError (ErrorUpdatingView name e)]
                  | _ \<Rightarrow> [ConsoleError (ErrorUpdatingView name TypeError)]))
        else [])"

text \<open>What one listener sees of a notification, and what is reported for it.\<close>

definition listener_events :: "string \<Rightarrow> payload \<Rightarrow> callback \<Rightarrow> event list" where
  "listener_events event data cb =
     ListenerCall cb data #
       (case cb of
          Callback _ (Some e) \<Rightarrow> [ConsoleError (ErrorInListener event e)]
        | _ \<Rightarrow> [])"

text \<open>The calls of one callback within a trace.\<close>

fun is_call_of :: "callback \<Rightarrow> event \<Rightarrow> bool" where
  "is_call_of cb (ListenerCall c d) = (c = cb)"
| "is_call_of cb _ = False"

text \<open>The calls made to views within a trace.\<close>

fun is_view_call :: "event \<Rightarrow> bool" where
  "is_view_call (SignalCall i n v) = True"
| "is_view_call (RunCall i) = True"
| "is_view_call _ = False"

definition emits :: "event list \<Rightarrow> world \<Rightarrow> world" where
  "emits es w = w\<lparr>effects := effects w @ es\<rparr>"

section \<open>The prepared configuration as a document\<close>

text \<open>
  What the specification says \<open>prepareSpec\<close> returns, as a function on documents: the
  first entry of \<open>params\<close> named \<open>globalYear\<close> gets the year as its \<open>value\<close>, where it
  stands; without such an entry a new one is put in front of the list; without a list
  (no \<open>params\<close>, or a falsy one) the list is created. \<open>config_fields\<close> is the shape of a
  configuration: \<open>params\<close> is absent, falsy, or a list without \<open>null\<close> entries.
\<close>

fun is_globalYear :: "json \<Rightarrow> bool" where
  "is_globalYear (JObj fs) = (map_of fs ''name'' = Some (JStr ''globalYear''))"
| "is_globalYear _ = False"

definition globalYear_entry :: "int \<Rightarrow> json" where
  "globalYear_entry y = JObj [(''name'', JStr ''globalYear''), (''value'', JNum y)]"

fun set_value :: "int \<Rightarrow> json \<Rightarrow> json" where
  "set_value y (JObj fs) = JObj (map_set ''value'' (JNum y) fs)"
| "set_value y j = j"

fun update_first :: "int \<Rightarrow> json list \<Rightarrow> json list" where
  "update_first y [] = []"
| "update_first y (e # es) =
     (if is_globalYear e then set_value y e # es else e # update_first y es)"

definition inject_year :: "int \<Rightarrow> json list \<Rightarrow> json list" where
  "inject_year y es =
     (if list_ex is_globalYear es then update_first y es else globalYear_entry y # es)"

fun falsy_json :: "json \<Rightarrow> bool" where
  "falsy_json JNull = True"
| "falsy_json (JBool b) = (\<not> b)"
| "falsy_json (JNum i) = (i = 0)"
| "falsy_json (JStr s) = (s = [])"
| "falsy_json _ = False"

definition with_globalYear :: "int \<Rightarrow> (string \<times> json) list \<Rightarrow> (string \<times> json) list" where
  "with_globalYear y fs =
     map_set ''params''
       (JArr (case map_of fs ''params'' of
                Some (JArr es) \<Rightarrow> inject_year y es
              | _ \<Rightarrow> [globalYear_entry y]))
       fs"

definition config_fields :: "(string \<times> json) list \<Rightarrow> bool" where
  "config_fields fs =
     (case map_of fs ''params'' of
        None \<Rightarrow> True
      | Some (JArr es) \<Rightarrow> list_all (\<lambda>e. e \<noteq> JNull) es
      | Some d \<Rightarrow> falsy_json d)"

section \<open>Fresh cells\<close>

text \<open>
  \<open>fresh_closed k h\<close>: no cell of \<open>h\<close> from address \<open>k\<close> on refers to a cell below \<open>k\<close>.
  \<open>untouched h0 h\<close>: \<open>h\<close> begins with \<open>h0\<close>, cell for cell, and its later cells do not
  refer into \<open>h0\<close>. \<open>keeps I m Q\<close>: the statement \<open>m\<close> preserves \<open>I\<close> whether it returns or
  raises, and a value it returns satisfies \<open>Q\<close>. \<open>same_cells lo hi h h'\<close>: the cells of \<open>h\<close>
  from \<open>lo\<close> up to \<open>hi\<close> are in \<open>h'\<close>, unchanged.
\<close>

fun val_above :: "nat \<Rightarrow> hval \<Rightarrow> bool" where
  "val_above k (VRef a) = (k \<le> a)"
| "val_above k _ = True"

fun cell_vals :: "cell \<Rightarrow> hval list" where
  "cell_vals (ObjCell ps) = map snd ps"
| "cell_vals (ArrCell xs ps) = xs @ map snd ps"

definition fresh_closed :: "nat \<Rightarrow> heap \<Rightarrow> bool" where
  "fresh_closed k h = list_all (\<lambda>c. list_all (val_above k) (cell_vals c)) (drop k h)"

definition keeps :: "(heap \<Rightarrow> bool) \<Rightarrow> 'a heap_op \<Rightarrow> ('a \<Rightarrow> bool) \<Rightarrow> bool" where
  "keeps I m Q =
     (\<forall>h. I h \<longrightarrow> (case m h of (Inl e, h') \<Rightarrow> I h' | (Inr x, h') \<Rightarrow> I h' \<and> Q x))"

definition untouched :: "heap \<Rightarrow> heap \<Rightarrow> bool" where
  "untouched h0 h =
     (length h0 \<le> length h \<and> take (length h0) h = h0 \<and> fresh_closed (length h0) h)"

definition same_cells :: "nat \<Rightarrow> nat \<Rightarrow> heap \<Rightarrow> heap \<Rightarrow> bool" where
  "same_cells lo hi h h' = (\<forall>a. lo \<le> a \<and> a < hi \<longrightarrow> cell_at h' a = cell_at h a)"

text \<open>A page with a year display, one registered chart and one \<open>yearChange\<close> listener.\<close>

abbreviation one_chart_page :: world where
  "one_chart_page \<equiv>
     (constructor None (Some (Num 2010)) [])
       \<lparr>views := [(''map'', Obj 1 (Function None) (Function None))],
        listeners := [(''yearChange'', [Callback 5 None])]\<rparr>"

text \<open>
  A heap holding the configuration \<open>{params: [{name: "other", value: 1}]}\<close> at address
  2, and a page whose current year is 2020.
\<close>

abbreviation chart_heap :: heap where
  "chart_heap \<equiv>
     [ObjCell [(''name'', VStr ''other''), (''value'', VNum 1)],
      ArrCell [VRef 0] [],
      ObjCell [(''params'', VRef 1)]]"

abbreviation chart_page :: world where
  "chart_page \<equiv>
     (constructor None None chart_heap)
       \<lparr>state := [(''currentYear'', Num 2020), (''startYear'', Num 2005), (''endYear'', Num 2025)]\<rparr>"

section \<open>Helper lemmas\<close>

lemma emits_Nil [simp]: "emits [] w = w"
  by (simp add: emits_def)

lemma emits_emits [simp]: "emits es' (emits es w) = emits (es @ es') w"
  by (simp add: emits_def)

lemma emit_emits: "emit e w = emits [e] w"
  by (simp add: emit_def emits_def)

lemma emits_fields [simp]:
  "state (emits es w) = state w" "views (emits es w) = views w"
  "listeners (emits es w) = listeners w" "yearDisplay (emits es w) = yearDisplay w"
  "yearSlider (emits es w) = yearSlider w" "heap (emits es w) = heap w"
  "effects (emits es w) = effects w @ es"
  by (simp_all add: emits_def)

lemma state_year_emits [simp]: "state_year k (emits es w) = state_year k w"
  by (simp add: state_year_def)

lemma getValue_emits [simp]: "getValue k (emits es w) = getValue k w"
  by (simp add: getValue_def)

lemma forEach_emits:
  assumes step: "\<And>x w. P w \<Longrightarrow> f x w = (Inr (), emits (g x) w)"
      and keep: "\<And>es w. P w \<Longrightarrow> P (emits es w)"
  shows "P w \<Longrightarrow> forEach f xs w = (Inr (), emits (concat (map g xs)) w)"
proof (induction xs arbitrary: w)
  case Nil
  then show ?case by simp
next
  case (Cons x xs)
  from Cons.prems have "P (emits (g x) w)" by (rule keep)
  then have "forEach f xs (emits (g x) w) = (Inr (), emits (concat (map g xs)) (emits (g x) w))"
    by (rule Cons.IH)
  with Cons.prems show ?case by (simp add: step)
qed

lemma view_step:
  "tryCatch (if has_signal view then push_year view else (\<lambda>w. (Inr (), w)))
     (\<lambda>error. console_error (ErrorUpdatingView name error)) w
   = (Inr (), emits (view_events (state_year CurrentYear w) (name, view)) w)"
  by (cases view)
     (auto simp: tryCatch_def push_year_def andThen_def call_member_def console_error_def
        view_events_def emit_emits
      split: member.splits option.splits)

lemma updateAllViews_emits:
  "updateAllViews w =
     (Inr (), emits (concat (map (view_events (state_year CurrentYear w)) (views w))) w)"
proof -
  let ?y = "state_year CurrentYear w"
  have "forEach (\<lambda>(name, view).
        tryCatch (if has_signal view then push_year view else (\<lambda>w. (Inr (), w)))
          (\<lambda>error. console_error (ErrorUpdatingView name error))) vs w
      = (Inr (), emits (concat (map (view_events ?y) vs)) w)" for vs
    by (rule forEach_emits [where P = "\<lambda>w'. state_year CurrentYear w' = ?y"])
       (auto simp: view_step)
  then show ?thesis by (simp add: updateAllViews_def)
qed

lemma listener_step:
  "tryCatch (call_callback cb data) (\<lambda>error. console_error (ErrorInListener event error)) w
   = (Inr (), emits (listener_events event data cb) w)"
  by (auto simp: tryCatch_def call_callback_def console_error_def listener_events_def emit_emits
      split: callback.splits option.splits)

lemma triggerListeners_emits:
  "triggerListeners event data w =
     (Inr (), emits (concat (map (listener_events event data) (listeners_for event w))) w)"
proof (cases "map_of (listeners w) event")
  case None
  then show ?thesis by (simp add: triggerListeners_def listeners_for_def)
next
  case (Some cbs)
  have "forEach (\<lambda>cb. tryCatch (call_callback cb data)
                 (\<lambda>error. console_error (ErrorInListener event error))) cbs w
        = (Inr (), emits (concat (map (listener_events event data) cbs)) w)"
    by (rule forEach_emits [where P = "\<lambda>_. True"]) (simp_all add: listener_step)
  with Some show ?thesis by (simp add: triggerListeners_def listeners_for_def)
qed

lemma map_of_map_set: "map_of (map_set k v kvs) = (map_of kvs)(k \<mapsto> v)"
  by (induction kvs) (auto simp: fun_eq_iff)

lemma updateYear_in_range:
  assumes "js_ge newYear (state_year StartYear w)" "js_le newYear (state_year EndYear w)"
  shows "updateYear newYear w =
    (Inr (),
     emits (concat (map (view_events newYear) (views w))
            @ concat (map (listener_events ''yearChange'' (YearData (state_year CurrentYear w) newYear))
                        (listeners_for ''yearChange'' w))
            @ [ConsoleLog (YearUpdated (state_year CurrentYear w) newYear)])
       (w\<lparr>state := map_set ''currentYear'' newYear (state w),
          yearDisplay := map_option (\<lambda>_. newYear) (yearDisplay w)\<rparr>))"
  using assms
  by (cases "yearDisplay w")
     (simp_all add: updateYear_def Let_def andThen_def updateAllViews_emits triggerListeners_emits
        console_log_def emit_emits state_year_def map_of_map_set listeners_for_def emits_def)

lemma updateYear_out_of_range:
  "\<not> (js_ge newYear (state_year StartYear w) \<and> js_le newYear (state_year EndYear w))
   \<Longrightarrow> updateYear newYear w = (Inr (), w)"
  by (auto simp: updateYear_def)

lemma map_of_state_assign:
  "k \<noteq> key \<Longrightarrow> map_of (state_assign key value st) k = map_of st k"
  by (simp add: state_assign_def map_of_map_set)

lemma getValue_year: "getValue (key_name k) w = Value (state_year k w)"
  by (cases k) (simp_all add: getValue_def state_year_def object_prototype_keys_def split: option.splits)

lemma setValue_emits:
  "setValue key value w =
    (Inr (),
     emits ((if key = ''currentYear'' then concat (map (view_events value) (views w)) else [])
            @ concat (map (listener_events ''stateChange'' (StateData key (getValue key w) value))
                        (listeners_for ''stateChange'' w)))
       (w\<lparr>state := state_assign key value (state w)\<rparr>))"
  by (simp add: setValue_def Let_def andThen_def updateAllViews_emits triggerListeners_emits
        state_year_def state_assign_def map_of_map_set listeners_for_def emits_def)

lemma registerView_accepted:
  assumes "has_signal view"
  shows "registerView name view w =
    (case signal view of
       Function (Some e) \<Rightarrow>
         (Inl e, emits [SignalCall (obj_id view) ''globalYear'' (state_year CurrentYear w)]
                   (w\<lparr>views := map_set name view (views w)\<rparr>))
     | _ \<Rightarrow>
        (case run view of
           Function None \<Rightarrow>
             (Inr (), emits [SignalCall (obj_id view) ''globalYear'' (state_year CurrentYear w),
                             RunCall (obj_id view), ConsoleLog (ViewRegistered name)]
                   (w\<lparr>views := map_set name view (views w)\<rparr>))
         | Function (Some e) \<Rightarrow>
             (Inl e, emits [SignalCall (obj_id view) ''globalYear'' (state_year CurrentYear w),
                            RunCall (obj_id view)]
                   (w\<lparr>views := map_set name view (views w)\<rparr>))
         | _ \<Rightarrow>
             (Inl TypeError, emits [SignalCall (obj_id view) ''globalYear'' (state_year CurrentYear w)]
                   (w\<lparr>views := map_set name view (views w)\<rparr>))))"
  using assms
  by (cases view)
     (auto simp: registerView_def push_year_def andThen_def call_member_def console_log_def
        emit_emits state_year_def emits_def
      split: member.splits option.splits)

lemma registerView_rejected:
  "\<not> has_signal view \<Longrightarrow> registerView name view w = (Inr (), emits [ConsoleError (InvalidView name)] w)"
  by (simp add: registerView_def console_error_def emit_emits)


lemma filter_calls_view_events [simp]:
  "filter (is_call_of cb) (concat (map (view_events y) vs)) = []"
  by (induction vs) (auto simp: view_events_def split: member.splits option.splits)

lemma filter_calls_listener_events [simp]:
  "filter (is_call_of cb) (concat (map (listener_events ev d) cbs))
     = replicate (count_list cbs cb) (ListenerCall cb d)"
  by (induction cbs) (auto simp: listener_events_def split: callback.splits option.splits)


lemma addEventListener_fields [simp]:
  "state (addEventListener ev cb w) = state w"
  "views (addEventListener ev cb w) = views w"
  "effects (addEventListener ev cb w) = effects w"
  "yearDisplay (addEventListener ev cb w) = yearDisplay w"
  by (simp_all add: addEventListener_def Let_def)

lemma state_year_addEventListener [simp]:
  "state_year k (addEventListener ev cb w) = state_year k w"
  by (simp add: state_year_def)

section \<open>Validation in updateYear\<close>

text \<open>
  C1. For every new value within \<open>[startYear, endYear]\<close>, \<open>updateYear\<close> returns normally,
  sets \<open>currentYear\<close> to it and fans it out: the trace grows by every registered view's
  signal and run calls carrying the new value, then the \<open>yearChange\<close> notifications, then the
  log line. For every other value (also \<open>NaN\<close> and \<open>undefined\<close>) the call returns normally
  and the whole world is unchanged: no state change, no call to a view, no call to a listener.
\<close>

theorem updateYear_validates_range:
  "(js_ge newYear (state_year StartYear w) \<and> js_le newYear (state_year EndYear w) \<longrightarrow>
      fst (updateYear newYear w) = Inr () \<and>
      state_year CurrentYear (snd (updateYear newYear w)) = newYear \<and>
      effects (snd (updateYear newYear w)) =
        effects w
        @ concat (map (view_events newYear) (views w))
        @ concat (map (listener_events ''yearChange'' (YearData (state_year CurrentYear w) newYear))
                    (listeners_for ''yearChange'' w))
        @ [ConsoleLog (YearUpdated (state_year CurrentYear w) newYear)])
   \<and> (\<not> (js_ge newYear (state_year StartYear w) \<and> js_le newYear (state_year EndYear w)) \<longrightarrow>
      updateYear newYear w = (Inr (), w))"
proof (intro conjI impI)
  assume r: "js_ge newYear (state_year StartYear w) \<and> js_le newYear (state_year EndYear w)"
  then have eq: "updateYear newYear w =
    (Inr (),
     emits (concat (map (view_events newYear) (views w))
            @ concat (map (listener_events ''yearChange'' (YearData (state_year CurrentYear w) newYear))
                        (listeners_for ''yearChange'' w))
            @ [ConsoleLog (YearUpdated (state_year CurrentYear w) newYear)])
       (w\<lparr>state := map_set ''currentYear'' newYear (state w),
          yearDisplay := map_option (\<lambda>_. newYear) (yearDisplay w)\<rparr>))"
    by (simp add: updateYear_in_range)
  show "fst (updateYear newYear w) = Inr ()" by (simp add: eq)
  show "state_year CurrentYear (snd (updateYear newYear w)) = newYear"
    by (simp add: eq) (simp add: state_year_def map_of_map_set)
  show "effects (snd (updateYear newYear w)) =
        effects w
        @ concat (map (view_events newYear) (views w))
        @ concat (map (listener_events ''yearChange'' (YearData (state_year CurrentYear w) newYear))
                    (listeners_for ''yearChange'' w))
        @ [ConsoleLog (YearUpdated (state_year CurrentYear w) newYear)]"
    by (simp add: eq)
next
  assume "\<not> (js_ge newYear (state_year StartYear w) \<and> js_le newYear (state_year EndYear w))"
  then show "updateYear newYear w = (Inr (), w)" by (rule updateYear_out_of_range)
qed

theorem updateYear_validates_range_witness:
  "fst (updateYear (Num 2015)
      one_chart_page) = Inr ()
   \<and> state_year CurrentYear (snd (updateYear (Num 2015)
      one_chart_page)) = Num 2015
   \<and> effects (snd (updateYear (Num 2015)
      one_chart_page)) =
       [SignalCall 1 ''globalYear'' (Num 2015), RunCall 1,
        ListenerCall (Callback 5 None) (YearData (Num 2010) (Num 2015)),
        ConsoleLog (YearUpdated (Num 2010) (Num 2015))]
   \<and> updateYear (Num 2030)
      one_chart_page
      = (Inr (), one_chart_page)
   \<and> updateYear NaN
      one_chart_page
      = (Inr (), one_chart_page)"
  using updateYear_validates_range [of "Num 2015" "one_chart_page"]
        updateYear_validates_range [of "Num 2030" "one_chart_page"]
        updateYear_validates_range [of NaN "one_chart_page"]
  by (simp add: constructor_def state_year_def view_events_def listener_events_def listeners_for_def)

lemma year_in_bounds_updateYear:
  assumes "year_in_bounds w"
  shows "year_in_bounds (snd (updateYear v w))"
proof (cases "js_ge v (state_year StartYear w) \<and> js_le v (state_year EndYear w)")
  case True
  then have "js_le (state_year StartYear w) v"
    by (cases v; cases "state_year StartYear w") simp_all
  with True show ?thesis
    by (simp add: updateYear_in_range year_in_bounds_def)
       (simp add: state_year_def map_of_map_set)
next
  case False
  with assms show ?thesis by (simp add: updateYear_out_of_range)
qed

lemma year_in_bounds_perform:
  assumes "year_in_bounds w" "\<not> writes_year_key op"
  shows "year_in_bounds (perform op w)"
proof (cases op)
  case (UpdateYear v)
  with assms show ?thesis by (simp add: year_in_bounds_updateYear)
next
  case (SetValue k v)
  with assms show ?thesis
    by (cases "k = ''__proto__''")
       (auto simp: setValue_emits year_in_bounds_def state_year_def map_of_state_assign)
next
  case (SliderInput v)
  with assms show ?thesis
    by (simp add: slider_input_def year_in_bounds_updateYear split: option.splits)
qed

lemma year_in_bounds_perform_all:
  "year_in_bounds w \<Longrightarrow> \<forall>op \<in> set ops. \<not> writes_year_key op \<Longrightarrow> year_in_bounds (perform_all ops w)"
  unfolding perform_all_def
  by (induction ops arbitrary: w) (simp_all add: year_in_bounds_perform)

lemma year_in_bounds_constructor: "year_in_bounds (constructor slider display h)"
  by (simp add: year_in_bounds_def constructor_def state_year_def)

section \<open>The bounds invariant\<close>

text \<open>
  \<open>setValue\<close> writes whatever it is given: from the initial state, setting \<open>currentYear\<close> to
  3000 leaves the state outside \<open>[startYear, endYear]\<close>.
\<close>

theorem setValue_breaks_year_bounds:
  "\<not> year_in_bounds (perform_all [SetValue ''currentYear'' (Num 3000)] (constructor None None []))"
  by (simp add: perform_all_def setValue_emits year_in_bounds_def)
     (simp add: state_year_def state_assign_def constructor_def)

text \<open>
  C2 (amended). Starting from the initial state, \<open>startYear <= currentYear <= endYear\<close> holds
  after every sequence of \<open>updateYear\<close> calls, slider inputs, and \<open>setValue\<close> calls on keys
  other than \<open>currentYear\<close>, \<open>startYear\<close> and \<open>endYear\<close>.
\<close>

theorem year_bounds_kept:
  "\<forall>op \<in> set ops. \<not> writes_year_key op \<Longrightarrow>
     year_in_bounds (perform_all ops (constructor slider display h))"
  by (rule year_in_bounds_perform_all [OF year_in_bounds_constructor])

theorem year_bounds_kept_witness:
  "year_in_bounds
     (perform_all [UpdateYear (Num 2015), UpdateYear (Num 2030), SetValue ''zoom'' (Num 3), SliderInput NaN]
        (constructor (Some (Num 2010)) (Some (Num 2010)) []))
   \<and> state_year CurrentYear
     (perform_all [UpdateYear (Num 2015), UpdateYear (Num 2030), SetValue ''zoom'' (Num 3), SliderInput NaN]
        (constructor (Some (Num 2010)) (Some (Num 2010)) [])) = Num 2015"
proof -
  have "\<forall>op \<in> set [UpdateYear (Num 2015), UpdateYear (Num 2030), SetValue ''zoom'' (Num 3), SliderInput NaN].
          \<not> writes_year_key op"
    by simp
  then have "year_in_bounds
     (perform_all [UpdateYear (Num 2015), UpdateYear (Num 2030), SetValue ''zoom'' (Num 3), SliderInput NaN]
        (constructor (Some (Num 2010)) (Some (Num 2010)) []))"
    by (rule year_bounds_kept)
  moreover have "state_year CurrentYear
     (perform_all [UpdateYear (Num 2015), UpdateYear (Num 2030), SetValue ''zoom'' (Num 3), SliderInput NaN]
        (constructor (Some (Num 2010)) (Some (Num 2010)) [])) = Num 2015"
    by (simp add: perform_all_def slider_input_def updateYear_def setValue_emits constructor_def
          state_year_def state_assign_def Let_def andThen_def updateAllViews_emits triggerListeners_emits
          console_log_def emit_emits listeners_for_def emits_def)
  ultimately show ?thesis by simp
qed

section \<open>Notification of listeners\<close>



text \<open>
  Listeners that remove no callback of the event while they are notified: what they add
  comes after the indices the loop visits, so the loop calls every callback that was
  registered when it started, in order, as \<open>triggerListeners\<close> does, which is the loop for
  callbacks that do nothing to the registry. Whatever the listeners do to the registry,
  the loop returns normally.
\<close>

lemma react_fields [simp]:
  "state (react r w) = state w" "views (react r w) = views w"
  "effects (react r w) = effects w" "yearDisplay (react r w) = yearDisplay w"
  by (cases r; simp add: addEventListener_def removeEventListener_def Let_def split: option.splits)+

lemma reactions_fields [simp]:
  "state (foldl (\<lambda>w' r. react r w') w rs) = state w"
  "views (foldl (\<lambda>w' r. react r w') w rs) = views w"
  "effects (foldl (\<lambda>w' r. react r w') w rs) = effects w"
  "yearDisplay (foldl (\<lambda>w' r. react r w') w rs) = yearDisplay w"
  by (induction rs arbitrary: w; simp)+




lemma listeners_for_effects [simp]:
  "listeners_for ev (w\<lparr>effects := es\<rparr>) = listeners_for ev w"
  by (simp add: listeners_for_def)




lemma listeners_for_emits [simp]: "listeners_for ev (emits es w) = listeners_for ev w"
  by (simp add: listeners_for_def)

lemma listeners_for_updates [simp]:
  "listeners_for ev (w\<lparr>state := s\<rparr>) = listeners_for ev w"
  "listeners_for ev (w\<lparr>yearDisplay := d\<rparr>) = listeners_for ev w"
  by (simp_all add: listeners_for_def)




lemma call_reacting_inert: "call_reacting (\<lambda>_. []) cb data w = call_callback cb data w"
  by (simp add: call_reacting_def split: prod.splits)

lemma forEach_live_inert:
  "listeners_for ev w = L \<Longrightarrow> k + n = length L \<Longrightarrow>
     forEach_live (\<lambda>cb. tryCatch (call_reacting (\<lambda>_. []) cb data)
                          (\<lambda>error. console_error (ErrorInListener ev error))) ev k n w
     = (Inr (), emits (concat (map (listener_events ev data) (drop k L))) w)"
proof (induction n arbitrary: k w)
  case 0
  then show ?case by simp
next
  case (Suc n)
  from Suc.prems have k: "k < length L" by simp
  then have d: "drop k L = L ! k # drop (Suc k) L" by (simp add: Cons_nth_drop_Suc)
  from Suc.prems have "listeners_for ev (emits (listener_events ev data (L ! k)) w) = L"
    "Suc k + n = length L" by simp_all
  from Suc.IH [OF this] Suc.prems(1) k d show ?case
    by (simp add: call_reacting_inert listener_step)
qed

lemma triggerListeners_reacting_inert:
  "triggerListeners_reacting (\<lambda>_. []) event data w = triggerListeners event data w"
proof (cases "map_of (listeners w) event")
  case None
  then show ?thesis by (simp add: triggerListeners_reacting_def triggerListeners_def)
next
  case (Some cbs)
  then have l: "listeners_for event w = cbs" by (simp add: listeners_for_def)
  from forEach_live_inert [OF l, of 0 "length cbs" data] Some l show ?thesis
    by (simp add: triggerListeners_reacting_def triggerListeners_emits)
qed

lemma updateYear_reacting_inert:
  "updateYear_reacting (\<lambda>_. []) newYear w = updateYear newYear w"
proof -
  have "triggerListeners_reacting (\<lambda>_. []) ''yearChange'' data = triggerListeners ''yearChange'' data"
    for data
    by (rule ext) (rule triggerListeners_reacting_inert)
  then show ?thesis by (simp add: updateYear_reacting_def updateYear_def)
qed




text \<open>
  The loop walks the live array: a listener that unregisters itself while it is notified
  moves the next one into its place, and the loop passes over it. Here the callback
  registered second is not called at all.
\<close>

theorem unsubscribing_listener_hides_next:
  "effects (snd (updateYear_reacting
        (\<lambda>c. if c = Callback 1 None then [Unsubscribe ''yearChange'' (Callback 1 None)] else [])
        (Num 2015)
        (addEventListener ''yearChange'' (Callback 7 None)
           ((constructor None None [])\<lparr>listeners := [(''yearChange'', [Callback 1 None])]\<rparr>))))
   = [ListenerCall (Callback 1 None) (YearData (Num 2010) (Num 2015)),
      ConsoleLog (YearUpdated (Num 2010) (Num 2015))]"
  by (simp add: updateYear_reacting_def constructor_def state_year_def Let_def andThen_def
        updateAllViews_emits triggerListeners_reacting_def addEventListener_def
        removeEventListener_def listeners_for_def tryCatch_def call_reacting_def
        call_callback_def console_log_def emit_def emits_def)



section \<open>Registering views\<close>

text \<open>
  The test in \<open>registerView\<close> looks at \<open>signal\<close> only: a handle with a \<open>signal\<close> function and
  no \<open>run\<close> member is stored in the registry, receives the signal call, and the call of the
  missing \<open>run\<close> raises a \<open>TypeError\<close> to the caller; no error is reported on the console.
\<close>

theorem registerView_without_run:
  "registerView ''v'' (Obj 1 (Function None) Absent) (constructor None None [])
   = (Inl TypeError,
      (constructor None None [])
        \<lparr>views := [(''v'', Obj 1 (Function None) Absent)],
         effects := [SignalCall 1 ''globalYear'' (Num 2010)]\<rparr>)"
  by (simp add: registerView_accepted emits_def) (simp add: constructor_def state_year_def)

text \<open>
  C4 (amended). For every name and every handle that is falsy or whose \<open>signal\<close> member is
  not a function, \<open>registerView\<close> leaves the registry (and all other state) unchanged,
  reports the error on the console and returns normally.
\<close>

theorem registerView_rejects_invalid:
  "\<not> has_signal view \<Longrightarrow>
     registerView name view w = (Inr (), w\<lparr>effects := effects w @ [ConsoleError (InvalidView name)]\<rparr>)"
  by (simp add: registerView_rejected emits_def)

theorem registerView_rejects_invalid_witness:
  "registerView ''v'' Falsy one_chart_page
     = (Inr (), one_chart_page\<lparr>effects := [ConsoleError (InvalidView ''v'')]\<rparr>)
   \<and> registerView ''v'' (Obj 3 NotFunction (Function None)) one_chart_page
     = (Inr (), one_chart_page\<lparr>effects := [ConsoleError (InvalidView ''v'')]\<rparr>)"
  using registerView_rejects_invalid [of Falsy "''v''" one_chart_page]
        registerView_rejects_invalid [of "Obj 3 NotFunction (Function None)" "''v''" one_chart_page]
  by (simp add: constructor_def)

text \<open>
  A view with both capabilities whose \<open>signal\<close> throws is stored and receives the signal
  call, but its \<open>run\<close> is never called: the exception leaves \<open>registerView\<close> first.
\<close>

theorem registerView_signal_raises:
  "registerView ''v1'' (Obj 1 (Function (Some (Thrown 0))) (Function None)) (constructor None None [])
   = (Inl (Thrown 0),
      (constructor None None [])
        \<lparr>views := [(''v1'', Obj 1 (Function (Some (Thrown 0))) (Function None))],
         effects := [SignalCall 1 ''globalYear'' (Num 2010)]\<rparr>)"
  by (simp add: registerView_accepted emits_def) (simp add: constructor_def state_year_def)

text \<open>
  C5 (amended). For every view exposing \<open>signal\<close> and \<open>run\<close>, \<open>registerView(name, V)\<close> stores
  \<open>V\<close> under \<open>name\<close> and at once calls \<open>V.signal("globalYear", currentYear)\<close>; when that call
  returns normally, the call of \<open>V.run\<close> follows it, and when it throws, \<open>run\<close> is not called.
\<close>

theorem registerView_pushes_year:
  "map_of (views (snd (registerView name (Obj i (Function s) (Function r)) w))) name
     = Some (Obj i (Function s) (Function r))
   \<and> effects (snd (registerView name (Obj i (Function s) (Function r)) w))
     = effects w
       @ SignalCall i ''globalYear'' (state_year CurrentYear w)
         # (case s of
              Some e \<Rightarrow> []
            | None \<Rightarrow> RunCall i # (case r of None \<Rightarrow> [ConsoleLog (ViewRegistered name)] | Some e \<Rightarrow> []))"
  by (simp add: registerView_accepted map_of_map_set split: option.splits)

theorem registerView_pushes_year_witness:
  "map_of (views (snd (registerView ''v1'' (Obj 1 (Function None) (Function None))
       ((constructor None None [])
          \<lparr>state := [(''currentYear'', Num 2012), (''startYear'', Num 2005),
                     (''endYear'', Num 2025)]\<rparr>)))) ''v1''
     = Some (Obj 1 (Function None) (Function None))
   \<and> effects (snd (registerView ''v1'' (Obj 1 (Function None) (Function None))
       ((constructor None None [])
          \<lparr>state := [(''currentYear'', Num 2012), (''startYear'', Num 2005),
                     (''endYear'', Num 2025)]\<rparr>)))
     = [SignalCall 1 ''globalYear'' (Num 2012), RunCall 1, ConsoleLog (ViewRegistered ''v1'')]"
  using registerView_pushes_year [of "''v1''" 1 None None "(constructor None None [])
          \<lparr>state := [(''currentYear'', Num 2012), (''startYear'', Num 2005),
                     (''endYear'', Num 2025)]\<rparr>"]
  by (simp add: constructor_def state_year_def)

text \<open>
  C10. For every handle whose \<open>signal\<close> member is a function, \<open>registerView\<close> writes the
  handle into the registry before the first call: whatever happens in the calls, the
  registry of the resulting world holds the handle under the name. An exception thrown by
  \<open>signal\<close>, or by \<open>run\<close> after \<open>signal\<close> returned, reaches the caller, and so does the
  \<open>TypeError\<close> of calling a \<open>run\<close> that is not a function.
\<close>

theorem registerView_not_atomic:
  "views (snd (registerView name (Obj i (Function s) rn) w))
     = map_set name (Obj i (Function s) rn) (views w)
   \<and> map_of (views (snd (registerView name (Obj i (Function s) rn) w))) name
     = Some (Obj i (Function s) rn)
   \<and> (s = Some e \<longrightarrow> fst (registerView name (Obj i (Function s) rn) w) = Inl e)
   \<and> (s = None \<and> rn = Function (Some e) \<longrightarrow>
        fst (registerView name (Obj i (Function s) rn) w) = Inl e)
   \<and> (s = None \<and> \<not> is_function rn \<longrightarrow>
        fst (registerView name (Obj i (Function s) rn) w) = Inl TypeError)"
  by (cases rn) (auto simp: registerView_accepted map_of_map_set split: option.splits)

theorem registerView_not_atomic_witness:
  "fst (registerView ''v'' (Obj 2 (Function None) (Function (Some (Thrown 4)))) one_chart_page)
     = Inl (Thrown 4)
   \<and> fst (registerView ''v'' (Obj 2 (Function (Some (Thrown 4))) Absent) one_chart_page)
     = Inl (Thrown 4)
   \<and> fst (registerView ''v'' (Obj 2 (Function None) NotFunction) one_chart_page)
     = Inl TypeError
   \<and> views (snd (registerView ''v'' (Obj 2 (Function None) (Function (Some (Thrown 4)))) one_chart_page))
     = [(''map'', Obj 1 (Function None) (Function None)),
        (''v'', Obj 2 (Function None) (Function (Some (Thrown 4))))]"
  using registerView_not_atomic [of "''v''" 2 None "Function (Some (Thrown 4))" one_chart_page "Thrown 4"]
        registerView_not_atomic [of "''v''" 2 "Some (Thrown 4)" Absent one_chart_page "Thrown 4"]
        registerView_not_atomic [of "''v''" 2 None NotFunction one_chart_page "Thrown 4"]
  by (simp add: constructor_def)

section \<open>Fan-out to the views\<close>

text \<open>
  C6. A fan-out never throws, whatever the registered views do. Its trace is the
  concatenation, in registration order, of what each view sees on its own: an exception
  from one view's \<open>signal\<close> or \<open>run\<close> is caught and reported under that view's name, and
  every registered view whose \<open>signal\<close> and \<open>run\<close> are functions, the first of which returns,
  receives its signal call with the current year and then its run call, whatever the
  other views did.
\<close>

theorem updateAllViews_isolates_failures:
  "updateAllViews w =
     (Inr (), w\<lparr>effects := effects w
                  @ concat (map (view_events (state_year CurrentYear w)) (views w))\<rparr>)
   \<and> (\<forall>(name, view) \<in> set (views w).
        has_signal view \<and> signal view = Function None \<and> is_function (run view) \<longrightarrow>
        (\<exists>before after.
           effects (snd (updateAllViews w)) =
             effects w @ before
             @ [SignalCall (obj_id view) ''globalYear'' (state_year CurrentYear w),
                RunCall (obj_id view)]
             @ after))"
proof (intro conjI ballI)
  show eq: "updateAllViews w =
     (Inr (), w\<lparr>effects := effects w
                  @ concat (map (view_events (state_year CurrentYear w)) (views w))\<rparr>)"
    by (simp add: updateAllViews_emits emits_def)
  fix nv assume nv: "nv \<in> set (views w)"
  obtain name view where [simp]: "nv = (name, view)" by (cases nv)
  let ?y = "state_year CurrentYear w"
  from nv obtain xs ys where split: "views w = xs @ nv # ys"
    by (auto simp: in_set_conv_decomp)
  show "case nv of (name, view) \<Rightarrow>
        has_signal view \<and> signal view = Function None \<and> is_function (run view) \<longrightarrow>
        (\<exists>before after.
           effects (snd (updateAllViews w)) =
             effects w @ before
             @ [SignalCall (obj_id view) ''globalYear'' (state_year CurrentYear w),
                RunCall (obj_id view)]
             @ after)"
  proof (clarsimp)
    assume ok: "has_signal view" "signal view = Function None" "is_function (run view)"
    then have "\<exists>tl. view_events ?y (name, view)
        = [SignalCall (obj_id view) ''globalYear'' ?y, RunCall (obj_id view)] @ tl"
      by (cases "run view") (auto simp: view_events_def split: option.splits)
    then obtain tl where ve: "view_events ?y (name, view)
        = [SignalCall (obj_id view) ''globalYear'' ?y, RunCall (obj_id view)] @ tl"
      by blast
    have "effects (snd (updateAllViews w)) =
          effects w @ concat (map (view_events ?y) xs)
          @ [SignalCall (obj_id view) ''globalYear'' ?y, RunCall (obj_id view)]
          @ (tl @ concat (map (view_events ?y) ys))"
      by (simp add: eq split ve)
    then show "\<exists>before after.
       effects (snd (updateAllViews w)) =
       effects w @ before @
       SignalCall (obj_id view) ''globalYear'' (state_year CurrentYear w) # RunCall (obj_id view) # after"
      by (metis append_Cons append_Nil)
  qed
qed

theorem updateAllViews_isolates_failures_witness:
  "updateAllViews
     ((constructor None None [])
        \<lparr>views := [(''bad'', Obj 1 (Function None) (Function (Some (Thrown 9)))),
                   (''good'', Obj 2 (Function None) (Function None))]\<rparr>)
   = (Inr (),
      (constructor None None [])
        \<lparr>views := [(''bad'', Obj 1 (Function None) (Function (Some (Thrown 9)))),
                   (''good'', Obj 2 (Function None) (Function None))],
         effects := [SignalCall 1 ''globalYear'' (Num 2010), RunCall 1,
                     ConsoleError (ErrorUpdatingView ''bad'' (Thrown 9)),
                     SignalCall 2 ''globalYear'' (Num 2010), RunCall 2]\<rparr>)
   \<and> (\<exists>before after.
        effects (snd (updateAllViews
          ((constructor None None [])
             \<lparr>views := [(''bad'', Obj 1 (Function None) (Function (Some (Thrown 9)))),
                        (''good'', Obj 2 (Function None) (Function None))]\<rparr>)))
        = before @ [SignalCall 2 ''globalYear'' (Num 2010), RunCall 2] @ after)"
proof -
  let ?W = "(constructor None None [])
        \<lparr>views := [(''bad'', Obj 1 (Function None) (Function (Some (Thrown 9)))),
                   (''good'', Obj 2 (Function None) (Function None))]\<rparr>"
  note t = updateAllViews_isolates_failures [of ?W]
  have "updateAllViews ?W
   = (Inr (),
      (constructor None None [])
        \<lparr>views := [(''bad'', Obj 1 (Function None) (Function (Some (Thrown 9)))),
                   (''good'', Obj 2 (Function None) (Function None))],
         effects := [SignalCall 1 ''globalYear'' (Num 2010), RunCall 1,
                     ConsoleError (ErrorUpdatingView ''bad'' (Thrown 9)),
                     SignalCall 2 ''globalYear'' (Num 2010), RunCall 2]\<rparr>)"
    using t [THEN conjunct1] by (simp add: constructor_def state_year_def view_events_def)
  moreover have "\<exists>before after.
        effects (snd (updateAllViews ?W))
        = before @ [SignalCall 2 ''globalYear'' (Num 2010), RunCall 2] @ after"
    using t [THEN conjunct2] by (simp add: constructor_def state_year_def)
  ultimately show ?thesis by blast
qed

section \<open>The generic setter\<close>

lemma no_view_call_listener_events [simp]:
  "filter is_view_call (concat (map (listener_events ev d) cbs)) = []"
  by (induction cbs) (auto simp: listener_events_def split: callback.splits option.splits)




section \<open>Parsing and writing back\<close>

lemma parse_extends:
  "parse j h = (v, h') \<Longrightarrow> \<exists>ext. h' = h @ ext"
  "parse_elems js h = (xs, h') \<Longrightarrow> \<exists>ext. h' = h @ ext"
  "parse_props fs h = (ps, h') \<Longrightarrow> \<exists>ext. h' = h @ ext"
proof (induction j h and js h and fs h arbitrary: v h' and xs h' and ps h'
       rule: parse_parse_elems_parse_props.induct)
  case (5 js h)
  then show ?case by (auto split: prod.splits)
next
  case (6 fs h)
  then show ?case by (auto split: prod.splits)
next
  case (8 j js h)
  then show ?case by (fastforce split: prod.splits)
next
  case (10 k j fs h)
  then show ?case by (fastforce split: prod.splits)
qed auto

lemma parse_length:
  "parse j h = (v, h') \<Longrightarrow> length h \<le> length h'"
  "parse_elems js h = (xs, h') \<Longrightarrow> length h \<le> length h'"
  "parse_props fs h = (ps, h') \<Longrightarrow> length h \<le> length h'"
  using parse_extends by fastforce+

lemma parse_same_cells:
  "parse j h = (v, h') \<Longrightarrow> a < length h \<Longrightarrow> cell_at h' a = cell_at h a"
  "parse_elems js h = (xs, h') \<Longrightarrow> a < length h \<Longrightarrow> cell_at h' a = cell_at h a"
  "parse_props fs h = (ps, h') \<Longrightarrow> a < length h \<Longrightarrow> cell_at h' a = cell_at h a"
  using parse_extends by (fastforce simp: cell_at_def nth_append)+


lemma same_cells_narrow:
  "same_cells lo hi h1 h \<Longrightarrow> lo \<le> lo' \<Longrightarrow> hi' \<le> hi \<Longrightarrow>
   (\<And>a. a < hi' \<Longrightarrow> cell_at h1 a = cell_at h2 a) \<Longrightarrow> same_cells lo' hi' h2 h"
  by (simp add: same_cells_def)

lemma stringify_parse:
  "parse j h0 = (v, h1) \<Longrightarrow> same_cells (length h0) (length h1) h1 h \<Longrightarrow>
     length h1 - length h0 \<le> n \<Longrightarrow> stringify n h v = Inr (Some j)"
  "parse_elems js h0 = (xs, h1) \<Longrightarrow> same_cells (length h0) (length h1) h1 h \<Longrightarrow>
     length h1 - length h0 \<le> n \<Longrightarrow> stringify_elems n h xs = Inr js"
  "parse_props fs h0 = (ps, h1) \<Longrightarrow> same_cells (length h0) (length h1) h1 h \<Longrightarrow>
     length h1 - length h0 \<le> n \<Longrightarrow> stringify_props n h ps = Inr fs"
proof (induction j h0 and js h0 and fs h0 arbitrary: v h1 n and xs h1 n and ps h1 n
       rule: parse_parse_elems_parse_props.induct)
  case (5 js h0)
  obtain xs h2 where p: "parse_elems js h0 = (xs, h2)" by (cases "parse_elems js h0")
  with "5.prems" have v: "v = VRef (length h2)" and h1: "h1 = h2 @ [ArrCell xs []]" by auto
  from p have le: "length h0 \<le> length h2" by (rule parse_length)
  from "5.prems"(2) le have cell: "cell_at h (length h2) = Some (ArrCell xs [])"
    by (simp add: same_cells_def h1 cell_at_def)
  from "5.prems"(3) le obtain m where n: "n = Suc m" and m: "length h2 - length h0 \<le> m"
    by (cases n) (auto simp: h1)
  have "same_cells (length h0) (length h2) h2 h"
    using "5.prems"(2) by (rule same_cells_narrow) (simp_all add: h1 cell_at_def nth_append)
  with p have "stringify_elems m h xs = Inr js" using m by (rule "5.IH")
  then show ?case by (simp add: v n cell)
next
  case (6 fs h0)
  obtain ps h2 where p: "parse_props fs h0 = (ps, h2)" by (cases "parse_props fs h0")
  with "6.prems" have v: "v = VRef (length h2)" and h1: "h1 = h2 @ [ObjCell ps]" by auto
  from p have le: "length h0 \<le> length h2" by (rule parse_length)
  from "6.prems"(2) le have cell: "cell_at h (length h2) = Some (ObjCell ps)"
    by (simp add: same_cells_def h1 cell_at_def)
  from "6.prems"(3) le obtain m where n: "n = Suc m" and m: "length h2 - length h0 \<le> m"
    by (cases n) (auto simp: h1)
  have "same_cells (length h0) (length h2) h2 h"
    using "6.prems"(2) by (rule same_cells_narrow) (simp_all add: h1 cell_at_def nth_append)
  with p have "stringify_props m h ps = Inr fs" using m by (rule "6.IH")
  then show ?case by (simp add: v n cell)
next
  case (8 j js h0)
  obtain x ha where pj: "parse j h0 = (x, ha)" by (cases "parse j h0")
  obtain xs' hb where pjs: "parse_elems js ha = (xs', hb)" by (cases "parse_elems js ha")
  from "8.prems"(1) pj pjs have xs: "xs = x # xs'" and hb: "hb = h1" by auto
  note la = parse_length(1) [OF pj] and lb = parse_length(2) [OF pjs]
  have "same_cells (length h0) (length ha) ha h"
    using "8.prems"(2) by (rule same_cells_narrow)
      (use lb hb parse_same_cells(2) [OF pjs] in auto)
  with pj have 1: "stringify n h x = Inr (Some j)"
    by (rule "8.IH"(1)) (use "8.prems"(3) la lb hb in auto)
  have "same_cells (length ha) (length hb) hb h"
    using "8.prems"(2) by (rule same_cells_narrow) (use la hb in auto)
  with pjs have 2: "stringify_elems n h xs' = Inr js"
    by (rule "8.IH"(2) [OF pj [symmetric]]) (use "8.prems"(3) la lb hb in auto)
  from 1 2 show ?case by (simp add: xs)
next
  case (10 k j fs h0)
  obtain x ha where pj: "parse j h0 = (x, ha)" by (cases "parse j h0")
  obtain ps' hb where pfs: "parse_props fs ha = (ps', hb)" by (cases "parse_props fs ha")
  from "10.prems"(1) pj pfs have ps: "ps = (k, x) # ps'" and hb: "hb = h1" by auto
  note la = parse_length(1) [OF pj] and lb = parse_length(3) [OF pfs]
  have "same_cells (length h0) (length ha) ha h"
    using "10.prems"(2) by (rule same_cells_narrow)
      (use lb hb parse_same_cells(3) [OF pfs] in auto)
  with pj have 1: "stringify n h x = Inr (Some j)"
    by (rule "10.IH"(1)) (use "10.prems"(3) la lb hb in auto)
  have "same_cells (length ha) (length hb) hb h"
    using "10.prems"(2) by (rule same_cells_narrow) (use la hb in auto)
  with pfs have 2: "stringify_props n h ps' = Inr fs"
    by (rule "10.IH"(2) [OF pj [symmetric]]) (use "10.prems"(3) la lb hb in auto)
  from 1 2 show ?case by (simp add: ps)
qed auto


lemma stringify_props_map_set:
  "parse_props fs h0 = (ps, h1) \<Longrightarrow> same_cells (length h0) (length h1) h1 h \<Longrightarrow>
     length h1 - length h0 \<le> n \<Longrightarrow> stringify n h x = Inr (Some d) \<Longrightarrow>
     stringify_props n h (map_set k x ps) = Inr (map_set k d fs)"
proof (induction fs arbitrary: h0 ps)
  case Nil
  then show ?case by simp
next
  case (Cons f fs)
  obtain k' j where f: "f = (k', j)" by (cases f)
  obtain y ha where pj: "parse j h0 = (y, ha)" by (cases "parse j h0")
  obtain ps' hb where pfs: "parse_props fs ha = (ps', hb)" by (cases "parse_props fs ha")
  from Cons.prems(1) f pj pfs have ps: "ps = (k', y) # ps'" and hb: "hb = h1" by auto
  note la = parse_length(1) [OF pj] and lb = parse_length(3) [OF pfs]
  have all: "stringify_props n h ps = Inr (f # fs)"
    using Cons.prems(1-3) by (rule stringify_parse(3))
  have "same_cells (length h0) (length ha) ha h"
    using Cons.prems(2) by (rule same_cells_narrow)
      (use lb hb parse_same_cells(3) [OF pfs] in auto)
  with pj have 1: "stringify n h y = Inr (Some j)"
    by (rule stringify_parse(1)) (use Cons.prems(3) la lb hb in auto)
  have sc: "same_cells (length ha) (length hb) hb h"
    using Cons.prems(2) by (rule same_cells_narrow) (use la hb in auto)
  show ?case
  proof (cases "k' = k")
    case True
    from pfs sc have "stringify_props n h ps' = Inr fs"
      by (rule stringify_parse(3)) (use Cons.prems(3) la lb hb in auto)
    with True show ?thesis by (simp add: ps f Cons.prems(4))
  next
    case False
    have "stringify_props n h (map_set k x ps') = Inr (map_set k d fs)"
      using pfs sc _ Cons.prems(4) unfolding hb
      by (rule Cons.IH [unfolded hb]) (use Cons.prems(3) la lb hb in auto)
    with False 1 show ?thesis by (simp add: ps f)
  qed
qed

lemma parse_elems_append:
  "parse_elems (js1 @ js2) h0 =
     (case parse_elems js1 h0 of (xs1, h1) \<Rightarrow>
        (case parse_elems js2 h1 of (xs2, h2) \<Rightarrow> (xs1 @ xs2, h2)))"
  by (induction js1 arbitrary: h0) (auto split: prod.splits)

lemma parse_props_append:
  "parse_props (fs1 @ fs2) h0 =
     (case parse_props fs1 h0 of (ps1, h1) \<Rightarrow>
        (case parse_props fs2 h1 of (ps2, h2) \<Rightarrow> (ps1 @ ps2, h2)))"
  by (induction fs1 arbitrary: h0) (auto split: prod.splits)

lemma stringify_elems_append:
  "stringify_elems n h xs1 = Inr js1 \<Longrightarrow> stringify_elems n h xs2 = Inr js2 \<Longrightarrow>
     stringify_elems n h (xs1 @ xs2) = Inr (js1 @ js2)"
  by (induction xs1 arbitrary: js1) (auto split: sum.splits)

lemma stringify_props_append:
  "stringify_props n h ps1 = Inr fs1 \<Longrightarrow> stringify_props n h ps2 = Inr fs2 \<Longrightarrow>
     stringify_props n h (ps1 @ ps2) = Inr (fs1 @ fs2)"
  by (induction ps1 arbitrary: fs1) (auto split: sum.splits option.splits)

lemma parse_props_keys:
  "parse_props fs h0 = (ps, h1) \<Longrightarrow> map fst ps = map fst fs"
  by (induction fs arbitrary: h0 ps) (auto split: prod.splits)

section \<open>What prepareSpec leaves alone\<close>

lemma in_set_drop:
  "c \<in> set (drop k h) \<longleftrightarrow> (\<exists>a. k \<le> a \<and> a < length h \<and> h ! a = c)"
proof
  assume "c \<in> set (drop k h)"
  then obtain i where "i < length (drop k h)" "drop k h ! i = c"
    by (auto simp: in_set_conv_nth)
  then show "\<exists>a. k \<le> a \<and> a < length h \<and> h ! a = c"
    by (intro exI [of _ "k + i"]) auto
next
  assume "\<exists>a. k \<le> a \<and> a < length h \<and> h ! a = c"
  then obtain a where a: "k \<le> a" "a < length h" "h ! a = c" by blast
  then have "a - k < length (drop k h)" "drop k h ! (a - k) = c" by auto
  then show "c \<in> set (drop k h)" by (metis nth_mem)
qed

lemma fresh_closed_iff:
  "fresh_closed k h \<longleftrightarrow> (\<forall>a. k \<le> a \<and> a < length h \<longrightarrow> list_all (val_above k) (cell_vals (h ! a)))"
  unfolding fresh_closed_def list_all_iff [of _ "drop k h"] by (metis in_set_drop)

lemma fresh_closed_snoc:
  "fresh_closed k h \<Longrightarrow> k \<le> length h \<Longrightarrow> list_all (val_above k) (cell_vals c) \<Longrightarrow>
     fresh_closed k (h @ [c])"
  by (simp add: fresh_closed_def)

lemma fresh_closed_update:
  assumes "fresh_closed k h" "list_all (val_above k) (cell_vals c)"
  shows "fresh_closed k (h[a := c])"
proof (cases "a < length h")
  case True
  with assms show ?thesis
    unfolding fresh_closed_iff by (auto simp: nth_list_update)
next
  case False
  with assms show ?thesis by (simp add: not_less list_update_beyond)
qed

lemma fresh_closed_cell:
  "fresh_closed k h \<Longrightarrow> k \<le> a \<Longrightarrow> cell_at h a = Some c \<Longrightarrow> list_all (val_above k) (cell_vals c)"
  unfolding fresh_closed_iff by (auto simp: cell_at_def split: if_splits)

lemma parse_fresh:
  "parse j h = (v, h') \<Longrightarrow> k \<le> length h \<Longrightarrow> fresh_closed k h \<Longrightarrow>
     val_above k v \<and> fresh_closed k h'"
  "parse_elems js h = (xs, h') \<Longrightarrow> k \<le> length h \<Longrightarrow> fresh_closed k h \<Longrightarrow>
     list_all (val_above k) xs \<and> fresh_closed k h'"
  "parse_props fs h = (ps, h') \<Longrightarrow> k \<le> length h \<Longrightarrow> fresh_closed k h \<Longrightarrow>
     list_all (val_above k) (map snd ps) \<and> fresh_closed k h'"
proof (induction j h and js h and fs h arbitrary: v h' and xs h' and ps h'
       rule: parse_parse_elems_parse_props.induct)
  case (5 js h)
  obtain xs h2 where p: "parse_elems js h = (xs, h2)" by (cases "parse_elems js h")
  from "5.IH" [OF p "5.prems"(2,3)] parse_length(2) [OF p] "5.prems" p
  show ?case by (auto intro!: fresh_closed_snoc)
next
  case (6 fs h)
  obtain ps h2 where p: "parse_props fs h = (ps, h2)" by (cases "parse_props fs h")
  from "6.IH" [OF p "6.prems"(2,3)] parse_length(3) [OF p] "6.prems" p
  show ?case by (auto intro!: fresh_closed_snoc)
next
  case (8 j js h)
  obtain x ha where pj: "parse j h = (x, ha)" by (cases "parse j h")
  obtain xs' hb where pjs: "parse_elems js ha = (xs', hb)" by (cases "parse_elems js ha")
  from "8.IH"(1) [OF pj "8.prems"(2,3)] have 1: "val_above k x" "fresh_closed k ha" by auto
  from parse_length(1) [OF pj] "8.prems"(2) have "k \<le> length ha" by simp
  from "8.IH"(2) [OF pj [symmetric] pjs this 1(2)] 1 "8.prems"(1) pj pjs
  show ?case by auto
next
  case (10 key j fs h)
  obtain x ha where pj: "parse j h = (x, ha)" by (cases "parse j h")
  obtain ps' hb where pfs: "parse_props fs ha = (ps', hb)" by (cases "parse_props fs ha")
  from "10.IH"(1) [OF pj "10.prems"(2,3)] have 1: "val_above k x" "fresh_closed k ha" by auto
  from parse_length(1) [OF pj] "10.prems"(2) have "k \<le> length ha" by simp
  from "10.IH"(2) [OF pj [symmetric] pfs this 1(2)] 1 "10.prems"(1) pj pfs
  show ?case by auto
qed auto

lemma keepsD:
  "keeps I m Q \<Longrightarrow> I h \<Longrightarrow> m h = (r, h') \<Longrightarrow> I h' \<and> (\<forall>x. r = Inr x \<longrightarrow> Q x)"
  unfolding keeps_def by (cases r) force+

lemma keepsI:
  "(\<And>h r h'. I h \<Longrightarrow> m h = (r, h') \<Longrightarrow> I h' \<and> (\<forall>x. r = Inr x \<longrightarrow> Q x)) \<Longrightarrow> keeps I m Q"
  unfolding keeps_def by (auto split: prod.splits sum.splits)

lemma keeps_bind:
  assumes m: "keeps I m Q" and f: "\<And>x. Q x \<Longrightarrow> keeps I (f x) R"
  shows "keeps I (bindH m f) R"
proof (rule keepsI)
  fix h r h' assume I: "I h" and b: "bindH m f h = (r, h')"
  obtain r1 h1 where mh: "m h = (r1, h1)" by (cases "m h")
  note 1 = keepsD [OF m I mh]
  show "I h' \<and> (\<forall>x. r = Inr x \<longrightarrow> R x)"
  proof (cases r1)
    case (Inl e)
    with b mh 1 show ?thesis by (auto simp: bindH_def)
  next
    case (Inr x)
    with b mh have fx: "f x h1 = (r, h')" by (simp add: bindH_def)
    from 1 Inr have "Q x" "I h1" by auto
    from keepsD [OF f [OF this(1)] this(2) fx] show ?thesis .
  qed
qed

lemma keeps_return: "Q x \<Longrightarrow> keeps I (returnH x) Q"
  by (rule keepsI) (auto simp: returnH_def)

lemma keeps_weaken: "keeps I m Q \<Longrightarrow> (\<And>x. Q x \<Longrightarrow> R x) \<Longrightarrow> keeps I m R"
  by (rule keepsI) (blast dest: keepsD)

lemma own_prop_above: "list_all (val_above k) (map snd ps) \<Longrightarrow> val_above k (own_prop ps key)"
  by (induction ps) (auto simp: own_prop_def)

lemma map_set_above:
  "list_all (val_above k) (map snd ps) \<Longrightarrow> val_above k x \<Longrightarrow>
     list_all (val_above k) (map snd (map_set key x ps))"
  by (induction ps) auto

lemma untouched_length: "untouched h0 h \<Longrightarrow> length h0 \<le> length h"
  by (simp add: untouched_def)

lemma untouched_snoc:
  "untouched h0 h \<Longrightarrow> list_all (val_above (length h0)) (cell_vals c) \<Longrightarrow> untouched h0 (h @ [c])"
  by (simp add: untouched_def fresh_closed_snoc)

lemma untouched_update:
  "untouched h0 h \<Longrightarrow> length h0 \<le> a \<Longrightarrow> list_all (val_above (length h0)) (cell_vals c) \<Longrightarrow>
     untouched h0 (h[a := c])"
  by (simp add: untouched_def fresh_closed_update)

lemma untouched_cell:
  "untouched h0 h \<Longrightarrow> length h0 \<le> a \<Longrightarrow> cell_at h a = Some c \<Longrightarrow>
     list_all (val_above (length h0)) (cell_vals c)"
  by (auto simp: untouched_def intro: fresh_closed_cell)

lemma untouched_parse:
  assumes "untouched h0 h" "parse doc h = (v, h')"
  shows "untouched h0 h' \<and> val_above (length h0) v"
proof -
  note kl = untouched_length [OF assms(1)]
  from assms(1) have fc: "fresh_closed (length h0) h" by (simp add: untouched_def)
  from parse_fresh(1) [OF assms(2) kl fc]
  have "val_above (length h0) v" "fresh_closed (length h0) h'" by auto
  moreover from parse_extends(1) [OF assms(2)] assms(1) kl have "take (length h0) h' = h0"
    by (auto simp: untouched_def)
  moreover from parse_length(1) [OF assms(2)] kl have "length h0 \<le> length h'" by simp
  ultimately show ?thesis by (simp add: untouched_def)
qed

lemma val_above_to_hval [simp]: "val_above (length h0) (to_hval c)"
  by (cases c) simp_all

lemma keeps_json_clone: "keeps (untouched h0) (json_clone v) (val_above (length h0))"
  unfolding keeps_def
proof (intro allI impI)
  fix h assume u: "untouched h0 h"
  show "case json_clone v h of (Inl e, h') \<Rightarrow> untouched h0 h'
        | (Inr x, h') \<Rightarrow> untouched h0 h' \<and> val_above (length h0) x"
  proof (cases "JSON_stringify h v")
    case (Inl e) with u show ?thesis by (simp add: json_clone_def)
  next
    case (Inr r)
    show ?thesis
    proof (cases r)
      case None with Inr u show ?thesis by (simp add: json_clone_def)
    next
      case (Some doc)
      obtain v' h' where p: "parse doc h = (v', h')" by (cases "parse doc h")
      from untouched_parse [OF u p] Inr Some p show ?thesis by (simp add: json_clone_def)
    qed
  qed
qed

lemma get_prop_above:
  assumes "untouched h0 h" "val_above (length h0) v" "get_prop h v key = Inr x"
  shows "val_above (length h0) x"
proof (cases v)
  case (VRef a)
  with assms(3) obtain c where c: "cell_at h a = Some c"
    by (auto split: option.splits)
  from VRef assms(2) have "length h0 \<le> a" by simp
  from untouched_cell [OF assms(1) this c] c VRef assms(3) show ?thesis
    by (cases c) (auto intro: own_prop_above)
qed (use assms(3) in auto)

lemma set_prop_untouched:
  assumes "untouched h0 h" "val_above (length h0) v" "val_above (length h0) x" "set_prop h v key x = Inr h'"
  shows "untouched h0 h'"
proof (cases v)
  case (VRef a)
  with assms(4) obtain c where c: "cell_at h a = Some c"
    by (auto split: option.splits)
  from VRef assms(2) have ka: "length h0 \<le> a" by simp
  note vals = untouched_cell [OF assms(1) ka c]
  show ?thesis
  proof (cases c)
    case (ObjCell ps)
    with c VRef assms(4) have "h' = h[a := ObjCell (map_set key x ps)]" by simp
    with vals ObjCell assms(1,3) ka show ?thesis
      by (auto intro!: untouched_update map_set_above)
  next
    case (ArrCell xs ps)
    with c VRef assms(4) have "h' = h[a := ArrCell xs (map_set key x ps)]" by simp
    with vals ArrCell assms(1,3) ka show ?thesis
      by (auto intro!: untouched_update map_set_above)
  qed
qed (use assms(4) in auto)

lemma keeps_read_prop:
  "val_above (length h0) v \<Longrightarrow> keeps (untouched h0) (read_prop v key) (val_above (length h0))"
  unfolding keeps_def read_prop_def
  by (auto split: sum.splits intro: get_prop_above)

lemma keeps_assign_prop:
  "val_above (length h0) v \<Longrightarrow> val_above (length h0) x \<Longrightarrow> keeps (untouched h0) (assign_prop v key x) (\<lambda>_. True)"
  unfolding keeps_def assign_prop_def
  by (auto split: sum.splits intro: set_prop_untouched)

lemma keeps_new_cell:
  "list_all (val_above (length h0)) (cell_vals c) \<Longrightarrow> keeps (untouched h0) (new_cell c) (val_above (length h0))"
  unfolding keeps_def new_cell_def
  by (auto intro: untouched_snoc dest: untouched_length)

lemma find_param_above:
  "find_param h xs = Inr x \<Longrightarrow> list_all (val_above (length h0)) xs \<Longrightarrow> val_above (length h0) x"
  by (induction xs) (auto split: sum.splits if_splits)

lemma keeps_array_find:
  "val_above (length h0) v \<Longrightarrow> keeps (untouched h0) (\<lambda>h. (array_find h v, h)) (val_above (length h0))"
  unfolding keeps_def
proof (intro allI impI)
  fix h assume v: "val_above (length h0) v" and u: "untouched h0 h"
  show "case (array_find h v, h) of (Inl e, h') \<Rightarrow> untouched h0 h'
        | (Inr x, h') \<Rightarrow> untouched h0 h' \<and> val_above (length h0) x"
  proof (cases "array_find h v")
    case (Inl e) with u show ?thesis by simp
  next
    case (Inr x)
    then obtain a xs ps where a: "v = VRef a" "cell_at h a = Some (ArrCell xs ps)"
        and f: "find_param h xs = Inr x"
      by (cases v) (auto split: option.splits cell.splits)
    from a v have "length h0 \<le> a" by simp
    from untouched_cell [OF u this a(2)] have "list_all (val_above (length h0)) xs" by simp
    with f have "val_above (length h0) x" by (rule find_param_above)
    with Inr u show ?thesis by simp
  qed
qed

lemma keeps_array_unshift:
  "val_above (length h0) v \<Longrightarrow> val_above (length h0) x \<Longrightarrow>
     keeps (untouched h0)
       (\<lambda>h. case array_unshift h v x of Inl e \<Rightarrow> (Inl e, h) | Inr h' \<Rightarrow> (Inr (), h'))
       (\<lambda>_. True)"
  unfolding keeps_def
proof (intro allI impI)
  fix h assume v: "val_above (length h0) v" and x: "val_above (length h0) x" and u: "untouched h0 h"
  show "case (case array_unshift h v x of Inl e \<Rightarrow> (Inl e, h) | Inr h' \<Rightarrow> (Inr (), h')) of
          (Inl e, h') \<Rightarrow> untouched h0 h'
        | (Inr u, h') \<Rightarrow> untouched h0 h' \<and> True"
  proof (cases "array_unshift h v x")
    case (Inl e) with u show ?thesis by simp
  next
    case (Inr h')
    then obtain a xs ps where a: "v = VRef a" "cell_at h a = Some (ArrCell xs ps)"
        and h': "h' = h[a := ArrCell (x # xs) ps]"
      by (cases v) (auto split: option.splits cell.splits)
    from a v have ka: "length h0 \<le> a" by simp
    from untouched_cell [OF u ka a(2)] x have "list_all (val_above (length h0)) (cell_vals (ArrCell (x # xs) ps))"
      by simp
    with u ka have "untouched h0 h'" unfolding h' by (rule untouched_update)
    with Inr show ?thesis by simp
  qed
qed

lemma keeps_ensure_params:
  assumes "val_above (length h0) v"
  shows "keeps (untouched h0)
           (bindH (new_cell (ArrCell [] [])) (assign_prop v ''params'')) (\<lambda>_. True)"
  by (rule keeps_bind [OF keeps_new_cell]) (simp_all add: keeps_assign_prop assms)

lemma keeps_unshift_param:
  assumes "val_above (length h0) v"
  shows "keeps (untouched h0)
     (bindH (read_prop v ''params'') (\<lambda>params.
      bindH (new_cell (ObjCell [(''name'', VStr ''globalYear''), (''value'', to_hval c)])) (\<lambda>param.
        (\<lambda>h. case array_unshift h params param of
                Inl e \<Rightarrow> (Inl e, h)
              | Inr h' \<Rightarrow> (Inr (), h'))))) (\<lambda>_. True)"
  apply (rule keeps_bind [OF keeps_read_prop [OF assms]])
  apply (rule keeps_bind [OF keeps_new_cell])
   apply simp
  apply (erule (1) keeps_array_unshift)
  done

lemma keeps_prepare: "keeps (untouched h0) (prepare currentYear spec) (val_above (length h0))"
  unfolding prepare_def
  apply (rule keeps_bind [OF keeps_json_clone])
  apply (rule keeps_bind [OF keeps_read_prop], assumption)
  apply (rule keeps_bind [where Q = "\<lambda>_. True"])
   apply (simp add: keeps_ensure_params keeps_return)
  apply (rule keeps_bind [OF keeps_read_prop], assumption)
  apply (rule keeps_bind [OF keeps_array_find], assumption)
  apply (rule keeps_bind [where Q = "\<lambda>_. True"])
   apply (simp add: keeps_unshift_param keeps_assign_prop)
  apply (erule keeps_return)
  done

lemma prepare_untouched:
  "take (length h) (snd (prepare currentYear spec h)) = h"
proof -
  have "untouched h h" by (simp add: untouched_def fresh_closed_def)
  from keepsD [OF keeps_prepare this surjective_pairing]
  have "untouched h (snd (prepare currentYear spec h))" by simp
  then show ?thesis by (simp add: untouched_def)
qed

section \<open>What prepareSpec builds\<close>

lemma map_of_split:
  "map_of fs k = Some d \<Longrightarrow> \<exists>pre post. fs = pre @ (k, d) # post \<and> k \<notin> fst ` set pre"
proof (induction fs)
  case Nil
  then show ?case by simp
next
  case (Cons f fs)
  show ?case
  proof (cases "fst f = k")
    case True
    with Cons.prems have "f = (k, d)" by (cases f) auto
    then have "f # fs = [] @ (k, d) # fs \<and> k \<notin> fst ` set []" by simp
    then show ?thesis by blast
  next
    case False
    with Cons.prems have "map_of fs k = Some d" by (cases f) auto
    from Cons.IH [OF this] obtain pre post where "fs = pre @ (k, d) # post" "k \<notin> fst ` set pre"
      by blast
    with False have "f # fs = (f # pre) @ (k, d) # post \<and> k \<notin> fst ` set (f # pre)" by auto
    then show ?thesis by blast
  qed
qed

lemma map_set_split:
  "k \<notin> fst ` set pre \<Longrightarrow> map_set k v (pre @ (k, d) # post) = pre @ (k, v) # post"
  by (induction pre) auto

lemma own_prop_split:
  "k \<notin> fst ` set pre \<Longrightarrow> own_prop (pre @ (k, v) # post) k = v"
  by (induction pre) (auto simp: own_prop_def)

lemma own_prop_map_set [simp]: "own_prop (map_set k v ps) k = v"
  by (simp add: own_prop_def map_of_map_set)

lemma update_first_split:
  "\<not> list_ex is_globalYear epre \<Longrightarrow> is_globalYear e \<Longrightarrow>
     update_first y (epre @ e # epost) = epre @ set_value y e # epost"
  by (induction epre) auto

lemma parse_VStr: "parse j h = (VStr s, h') \<longleftrightarrow> j = JStr s \<and> h' = h"
  by (cases j) (auto split: prod.splits)

lemma own_prop_parse_str:
  "parse_props fs h0 = (ps, h1) \<Longrightarrow> own_prop ps k = VStr s \<longleftrightarrow> map_of fs k = Some (JStr s)"
proof (induction fs arbitrary: h0 ps h1)
  case Nil
  then show ?case by (simp add: own_prop_def)
next
  case (Cons f fs)
  obtain k' j where f: "f = (k', j)" by (cases f)
  obtain x ha where pj: "parse j h0 = (x, ha)" by (cases "parse j h0")
  obtain ps' hb where pfs: "parse_props fs ha = (ps', hb)" by (cases "parse_props fs ha")
  from Cons.prems f pj pfs have ps: "ps = (k', x) # ps'" by auto
  show ?case
  proof (cases "k' = k")
    case True
    with pj show ?thesis using parse_VStr [of j h0 s ha] by (auto simp: ps f own_prop_def)
  next
    case False
    with Cons.IH [OF pfs] show ?thesis by (simp add: ps f own_prop_def)
  qed
qed

lemma truthy_parse: "parse d h = (v, h') \<Longrightarrow> truthy v \<longleftrightarrow> \<not> falsy_json d"
  by (cases d) (auto split: prod.splits)

lemma own_prop_parse_falsy:
  "parse_props fs h0 = (ps, h1) \<Longrightarrow>
     (case map_of fs k of None \<Rightarrow> True | Some d \<Rightarrow> falsy_json d) \<Longrightarrow> \<not> truthy (own_prop ps k)"
proof (induction fs arbitrary: h0 ps h1)
  case Nil
  then show ?case by (simp add: own_prop_def)
next
  case (Cons f fs)
  obtain k' j where f: "f = (k', j)" by (cases f)
  obtain x ha where pj: "parse j h0 = (x, ha)" by (cases "parse j h0")
  obtain ps' hb where pfs: "parse_props fs ha = (ps', hb)" by (cases "parse_props fs ha")
  from Cons.prems f pj pfs have ps: "ps = (k', x) # ps'" by auto
  show ?case
  proof (cases "k' = k")
    case True
    with Cons.prems(2) f truthy_parse [OF pj] show ?thesis by (simp add: ps own_prop_def)
  next
    case False
    with Cons.prems(2) f Cons.IH [OF pfs] show ?thesis by (simp add: ps own_prop_def)
  qed
qed

text \<open>Reading \<open>name\<close> from a parsed entry.\<close>

lemma get_name_parse:
  assumes "parse e h0 = (g, h1)" "e \<noteq> JNull" "same_cells (length h0) (length h1) h1 H"
  shows "\<exists>n. get_prop H g ''name'' = Inr n \<and> (n = VStr ''globalYear'' \<longleftrightarrow> is_globalYear e)"
proof (cases e)
  case (JArr js)
  obtain xs h2 where p: "parse_elems js h0 = (xs, h2)" by (cases "parse_elems js h0")
  with assms(1) JArr have g: "g = VRef (length h2)" and h1: "h1 = h2 @ [ArrCell xs []]" by auto
  from parse_length(2) [OF p] assms(3) have "cell_at H (length h2) = Some (ArrCell xs [])"
    by (simp add: same_cells_def h1 cell_at_def)
  then show ?thesis by (simp add: g JArr own_prop_def)
next
  case (JObj fs)
  obtain ps h2 where p: "parse_props fs h0 = (ps, h2)" by (cases "parse_props fs h0")
  with assms(1) JObj have g: "g = VRef (length h2)" and h1: "h1 = h2 @ [ObjCell ps]" by auto
  from parse_length(3) [OF p] assms(3) have "cell_at H (length h2) = Some (ObjCell ps)"
    by (simp add: same_cells_def h1 cell_at_def)
  then show ?thesis by (simp add: g JObj own_prop_parse_str [OF p])
qed (use assms(1,2) in auto)

lemma find_param_none:
  "parse_elems es h0 = (gs, h1) \<Longrightarrow> list_all (\<lambda>e. e \<noteq> JNull) es \<Longrightarrow>
     same_cells (length h0) (length h1) h1 H \<Longrightarrow> \<not> list_ex is_globalYear es \<Longrightarrow>
     find_param H gs = Inr VUndefined"
proof (induction es arbitrary: h0 gs h1)
  case Nil
  then show ?case by simp
next
  case (Cons e es)
  obtain g ha where pe: "parse e h0 = (g, ha)" by (cases "parse e h0")
  obtain gs' hb where pes: "parse_elems es ha = (gs', hb)" by (cases "parse_elems es ha")
  from Cons.prems(1) pe pes have gs: "gs = g # gs'" and hb: "hb = h1" by auto
  note la = parse_length(1) [OF pe] and lb = parse_length(2) [OF pes]
  have "same_cells (length h0) (length ha) ha H"
    using Cons.prems(3) by (rule same_cells_narrow)
      (use lb hb parse_same_cells(2) [OF pes] in auto)
  from get_name_parse [OF pe _ this] Cons.prems(2,4)
  obtain n where n: "get_prop H g ''name'' = Inr n" "n \<noteq> VStr ''globalYear''" by auto
  have "same_cells (length ha) (length hb) hb H"
    using Cons.prems(3) by (rule same_cells_narrow) (use la hb in auto)
  from Cons.IH [OF pes _ this] Cons.prems(2,4) have "find_param H gs' = Inr VUndefined" by simp
  with n show ?case by (simp add: gs)
qed


lemma find_param_first:
  "parse_elems epre h0 = (gpre, hC) \<Longrightarrow> list_all (\<lambda>e. e \<noteq> JNull) epre \<Longrightarrow>
     same_cells (length h0) (length hC) hC H \<Longrightarrow> \<not> list_ex is_globalYear epre \<Longrightarrow>
     get_prop H g ''name'' = Inr (VStr ''globalYear'') \<Longrightarrow>
     find_param H (gpre @ g # gpost) = Inr g"
proof (induction epre arbitrary: h0 gpre hC)
  case Nil
  then show ?case by simp
next
  case (Cons e es)
  obtain x ha where pe: "parse e h0 = (x, ha)" by (cases "parse e h0")
  obtain gs' hb where pes: "parse_elems es ha = (gs', hb)" by (cases "parse_elems es ha")
  from Cons.prems(1) pe pes have gs: "gpre = x # gs'" and hb: "hb = hC" by auto
  note la = parse_length(1) [OF pe] and lb = parse_length(2) [OF pes]
  have "same_cells (length h0) (length ha) ha H"
    using Cons.prems(3) by (rule same_cells_narrow)
      (use lb hb parse_same_cells(2) [OF pes] in auto)
  from get_name_parse [OF pe _ this] Cons.prems(2,4)
  obtain n where n: "get_prop H x ''name'' = Inr n" "n \<noteq> VStr ''globalYear''" by auto
  have "same_cells (length ha) (length hb) hb H"
    using Cons.prems(3) by (rule same_cells_narrow) (use la hb in auto)
  from Cons.IH [OF pes _ this _ Cons.prems(5)] Cons.prems(2,4)
  have "find_param H (gs' @ g # gpost) = Inr g" by simp
  with n show ?case by (simp add: gs)
qed

lemma cell_at_snoc [simp]: "cell_at (h @ c # cs) (length h) = Some c"
  by (simp add: cell_at_def)

lemma cell_at_append_lt: "a < length h \<Longrightarrow> cell_at (h @ ext) a = cell_at h a"
  by (simp add: cell_at_def nth_append)

lemma cell_at_append:
  "cell_at (h @ ext) a = (if a < length h then cell_at h a else cell_at ext (a - length h))"
  by (auto simp: cell_at_def nth_append)

lemma cell_at_Nil [simp]: "cell_at [] a = None"
  by (simp add: cell_at_def)

lemma cell_at_Cons_0 [simp]: "cell_at (c # cs) 0 = Some c"
  by (simp add: cell_at_def)

lemma cell_at_Cons_Suc [simp]: "cell_at (c # cs) (Suc a) = cell_at cs a"
  by (simp add: cell_at_def)

lemma cell_at_Cons_numeral [simp]:
  "cell_at (c # cs) (numeral n) = cell_at cs (pred_numeral n)"
  by (simp add: cell_at_def)

lemma cell_at_update:
  "cell_at (h[a := c]) b = (if a = b \<and> a < length h then Some c else cell_at h b)"
  by (auto simp: cell_at_def)

text \<open>Case A: no usable \<open>params\<close> in the document.\<close>

lemma prepare_without_params:
  assumes doc: "JSON_stringify h spec = Inr (Some (JObj fs))"
      and p: "parse_props fs h = (ps, hF)"
      and np: "case map_of fs ''params'' of None \<Rightarrow> True | Some d \<Rightarrow> falsy_json d"
  shows "prepare (Num y) spec h =
     (Inr (VRef (length hF)),
      hF @ [ObjCell (map_set ''params'' (VRef (Suc (length hF))) ps),
            ArrCell [VRef (Suc (Suc (length hF)))] [],
            ObjCell [(''name'', VStr ''globalYear''), (''value'', VNum y)]])"
  using own_prop_parse_falsy [OF p np]
  by (simp add: prepare_def bindH_def json_clone_def doc p read_prop_def new_cell_def
        assign_prop_def returnH_def cell_at_update cell_at_append list_update_append)


lemma readback_without_params:
  assumes p: "parse_props fs h = (ps, hF)"
  shows "JSON_stringify
           (hF @ [ObjCell (map_set ''params'' (VRef (Suc (length hF))) ps),
                  ArrCell [VRef (Suc (Suc (length hF)))] [],
                  ObjCell [(''name'', VStr ''globalYear''), (''value'', VNum y)]])
           (VRef (length hF))
         = Inr (Some (JObj (map_set ''params'' (JArr [globalYear_entry y]) fs)))"
proof -
  define H where "H = hF @ [ObjCell (map_set ''params'' (VRef (Suc (length hF))) ps),
                  ArrCell [VRef (Suc (Suc (length hF)))] [],
                  ObjCell [(''name'', VStr ''globalYear''), (''value'', VNum y)]]"
  have len: "length H = Suc (Suc (Suc (length hF)))" by (simp add: H_def)
  have sc: "same_cells (length h) (length hF) hF H"
    by (simp add: same_cells_def H_def cell_at_append)
  have fuel: "length hF - length h \<le> Suc (Suc (length hF))" by simp
  have arr: "stringify (Suc (Suc (length hF))) H (VRef (Suc (length hF)))
             = Inr (Some (JArr [globalYear_entry y]))"
    by (simp add: H_def cell_at_append globalYear_entry_def)
  have "stringify_props (Suc (Suc (length hF))) H (map_set ''params'' (VRef (Suc (length hF))) ps)
        = Inr (map_set ''params'' (JArr [globalYear_entry y]) fs)"
    using p sc fuel arr by (rule stringify_props_map_set)
  then have "stringify (length H) H (VRef (length hF))
        = Inr (Some (JObj (map_set ''params'' (JArr [globalYear_entry y]) fs)))"
    by (simp add: len) (simp add: H_def cell_at_append)
  then show ?thesis by (simp add: JSON_stringify_def H_def)
qed

lemma parse_props_layout:
  assumes "parse_props (pre @ (k, JArr es) # post) h = (ps, hF)"
  obtains ps_pre hA gs hP ps_post where
    "parse_props pre h = (ps_pre, hA)" "parse_elems es hA = (gs, hP)"
    "parse_props post (hP @ [ArrCell gs []]) = (ps_post, hF)"
    "ps = ps_pre @ (k, VRef (length hP)) # ps_post"
  using assms by (auto simp: parse_props_append split: prod.splits)

lemma parse_elems_layout:
  assumes "parse_elems (epre @ JObj efs # epost) hA = (gs, hP)"
  obtains gpre hC kvs hD gpost where
    "parse_elems epre hA = (gpre, hC)" "parse_props efs hC = (kvs, hD)"
    "parse_elems epost (hD @ [ObjCell kvs]) = (gpost, hP)"
    "gs = gpre @ VRef (length hD) # gpost"
  using assms by (auto simp: parse_elems_append split: prod.splits)


text \<open>Case B1: a \<open>params\<close> list with no \<open>globalYear\<close> entry.\<close>

lemma prepare_params_no_entry:
  assumes doc: "JSON_stringify h spec = Inr (Some (JObj (pre @ (''params'', JArr es) # post)))"
      and npre: "''params'' \<notin> fst ` set pre"
      and p: "parse_props (pre @ (''params'', JArr es) # post) h = (ps, hF)"
      and nn: "list_all (\<lambda>e. e \<noteq> JNull) es"
      and none: "\<not> list_ex is_globalYear es"
  shows "\<exists>H. prepare (Num y) spec h = (Inr (VRef (length hF)), H) \<and>
             JSON_stringify H (VRef (length hF))
               = Inr (Some (JObj (pre @ (''params'', JArr (globalYear_entry y # es)) # post)))"
proof -
  from p obtain ps_pre hA gs hP ps_post where
    ppre: "parse_props pre h = (ps_pre, hA)" and pes: "parse_elems es hA = (gs, hP)" and
    ppost: "parse_props post (hP @ [ArrCell gs []]) = (ps_post, hF)" and
    ps: "ps = ps_pre @ (''params'', VRef (length hP)) # ps_post"
    by (rule parse_props_layout)
  from parse_props_keys [OF ppre] npre have "''params'' \<notin> fst ` set ps_pre"
    by (metis list.set_map)
  then have own: "own_prop ps ''params'' = VRef (length hP)"
    unfolding ps by (rule own_prop_split)
  from parse_length(3) [OF ppost] have lF: "Suc (length hP) \<le> length hF" by simp
  note lP = parse_length(2) [OF pes]
  have cF: "cell_at hF a = cell_at (hP @ [ArrCell gs []]) a" if "a \<le> length hP" for a
    using parse_same_cells(3) [OF ppost, of a] that by simp
  have cFp: "cell_at hF (length hP) = Some (ArrCell gs [])"
    using cF [of "length hP"] by simp
  have cFP: "cell_at hF a = cell_at hP a" if "a < length hP" for a
    using cF [of a] that by (simp add: cell_at_append)
  have cPA: "cell_at hP a = cell_at hA a" if "a < length hA" for a
    using parse_same_cells(2) [OF pes that] .
  define entry where "entry = ObjCell [(''name'', VStr ''globalYear''), (''value'', VNum y)]"
  define H where "H = (hF @ [ObjCell ps, entry])[length hP := ArrCell (VRef (Suc (length hF)) # gs) []]"
  have sc1: "same_cells (length hA) (length hP) hP (hF @ [ObjCell ps])"
    using lF by (simp add: same_cells_def cell_at_append cFP)
  have fp: "find_param (hF @ [ObjCell ps]) gs = Inr VUndefined"
    using pes nn sc1 none by (rule find_param_none)
  have comp: "prepare (Num y) spec h = (Inr (VRef (length hF)), H)"
    using lF
    by (simp add: prepare_def bindH_def json_clone_def doc p read_prop_def new_cell_def
          assign_prop_def returnH_def own cell_at_append cFp fp H_def entry_def)
  have lenH: "length H = Suc (Suc (length hF))" by (simp add: H_def)
  have cH: "cell_at H a = cell_at hF a" if "a < length hF" "a \<noteq> length hP" for a
    using that by (simp add: H_def cell_at_update cell_at_append)
  have cHp: "cell_at H (length hP) = Some (ArrCell (VRef (Suc (length hF)) # gs) [])"
    using lF by (simp add: H_def cell_at_update)
  have cHr: "cell_at H (length hF) = Some (ObjCell ps)"
    using lF by (simp add: H_def cell_at_update cell_at_append)
  have cHo: "cell_at H (Suc (length hF)) = Some entry"
    using lF by (simp add: H_def cell_at_update cell_at_append)
  have scA: "same_cells (length h) (length hA) hA H"
    using lP lF by (simp add: same_cells_def cH cFP cPA)
  have scP: "same_cells (length hA) (length hP) hP H"
    using lF by (simp add: same_cells_def cH cFP)
  have scF: "same_cells (length (hP @ [ArrCell gs []])) (length hF) hF H"
    by (simp add: same_cells_def cH)
  have pre_ok: "stringify_props (Suc (length hF)) H ps_pre = Inr pre"
    using ppre scA by (rule stringify_parse(3)) (use lP lF in simp)
  have post_ok: "stringify_props (Suc (length hF)) H ps_post = Inr post"
    using ppost scF by (rule stringify_parse(3)) simp
  have elems_ok: "stringify_elems (length hF) H gs = Inr es"
    using pes scP by (rule stringify_parse(2)) (use lF in simp)
  from lF obtain m where m: "length hF = Suc m" by (cases "length hF") auto
  have entry_ok: "stringify (length hF) H (VRef (Suc (length hF))) = Inr (Some (globalYear_entry y))"
    using cHo by (simp add: m entry_def globalYear_entry_def)
  have arr_ok: "stringify (Suc (length hF)) H (VRef (length hP))
                = Inr (Some (JArr (globalYear_entry y # es)))"
    by (simp add: cHp entry_ok elems_ok)
  have "stringify_props (Suc (length hF)) H ((''params'', VRef (length hP)) # ps_post)
        = Inr ((''params'', JArr (globalYear_entry y # es)) # post)"
    by (simp add: arr_ok post_ok del: stringify.simps)
  with pre_ok have "stringify_props (Suc (length hF)) H ps
        = Inr (pre @ (''params'', JArr (globalYear_entry y # es)) # post)"
    unfolding ps by (rule stringify_props_append)
  then have "JSON_stringify H (VRef (length hF))
        = Inr (Some (JObj (pre @ (''params'', JArr (globalYear_entry y # es)) # post)))"
    by (simp add: JSON_stringify_def lenH cHr)
  with comp show ?thesis by blast
qed


text \<open>Case B2: a \<open>params\<close> list with a \<open>globalYear\<close> entry.\<close>

lemma prepare_params_entry:
  assumes doc: "JSON_stringify h spec
                  = Inr (Some (JObj (pre @ (''params'', JArr (epre @ JObj efs # epost)) # post)))"
      and npre: "''params'' \<notin> fst ` set pre"
      and p: "parse_props (pre @ (''params'', JArr (epre @ JObj efs # epost)) # post) h = (ps, hF)"
      and nn: "list_all (\<lambda>e. e \<noteq> JNull) epre"
      and first: "\<not> list_ex is_globalYear epre"
      and named: "map_of efs ''name'' = Some (JStr ''globalYear'')"
  shows "\<exists>H. prepare (Num y) spec h = (Inr (VRef (length hF)), H) \<and>
             JSON_stringify H (VRef (length hF))
               = Inr (Some (JObj (pre @ (''params'',
                    JArr (epre @ JObj (map_set ''value'' (JNum y) efs) # epost)) # post)))"
proof -
  from p obtain ps_pre hA gs hP ps_post where
    ppre: "parse_props pre h = (ps_pre, hA)" and
    pes: "parse_elems (epre @ JObj efs # epost) hA = (gs, hP)" and
    ppost: "parse_props post (hP @ [ArrCell gs []]) = (ps_post, hF)" and
    ps: "ps = ps_pre @ (''params'', VRef (length hP)) # ps_post"
    by (rule parse_props_layout)
  from pes obtain gpre hC kvs hD gpost where
    pepre: "parse_elems epre hA = (gpre, hC)" and pefs: "parse_props efs hC = (kvs, hD)" and
    pepost: "parse_elems epost (hD @ [ObjCell kvs]) = (gpost, hP)" and
    gs: "gs = gpre @ VRef (length hD) # gpost"
    by (rule parse_elems_layout)
  from parse_props_keys [OF ppre] npre have "''params'' \<notin> fst ` set ps_pre"
    by (metis list.set_map)
  then have own: "own_prop ps ''params'' = VRef (length hP)"
    unfolding ps by (rule own_prop_split)
  from parse_length(3) [OF ppost] have lF: "Suc (length hP) \<le> length hF" by simp
  from parse_length(2) [OF pepost] have lP: "Suc (length hD) \<le> length hP" by simp
  note lD = parse_length(3) [OF pefs] and lC = parse_length(2) [OF pepre]
  have cF: "cell_at hF a = cell_at (hP @ [ArrCell gs []]) a" if "a \<le> length hP" for a
    using parse_same_cells(3) [OF ppost, of a] that by simp
  have cFp: "cell_at hF (length hP) = Some (ArrCell gs [])"
    using cF [of "length hP"] by simp
  have cFP: "cell_at hF a = cell_at hP a" if "a < length hP" for a
    using cF [of a] that by (simp add: cell_at_append)
  have cPE: "cell_at hP a = cell_at (hD @ [ObjCell kvs]) a" if "a \<le> length hD" for a
    using parse_same_cells(2) [OF pepost, of a] that by simp
  have cPg: "cell_at hP (length hD) = Some (ObjCell kvs)"
    using cPE [of "length hD"] by simp
  have cPD: "cell_at hP a = cell_at hD a" if "a < length hD" for a
    using cPE [of a] that by (simp add: cell_at_append)
  have cDC: "cell_at hD a = cell_at hC a" if "a < length hC" for a
    using parse_same_cells(3) [OF pefs that] .
  have cCA: "cell_at hC a = cell_at hA a" if "a < length hA" for a
    using parse_same_cells(2) [OF pepre that] .
  have cFg: "cell_at hF (length hD) = Some (ObjCell kvs)"
    using cFP [of "length hD"] cPg lP by simp
  have kv: "own_prop kvs ''name'' = VStr ''globalYear''"
    using own_prop_parse_str [OF pefs] named by simp
  have name: "get_prop (hF @ [ObjCell ps]) (VRef (length hD)) ''name'' = Inr (VStr ''globalYear'')"
    using lP lF by (simp add: cell_at_append cFg kv)
  have sc1: "same_cells (length hA) (length hC) hC (hF @ [ObjCell ps])"
    using lC lD lP lF by (simp add: same_cells_def cell_at_append cFP cPD cDC)
  have fp: "find_param (hF @ [ObjCell ps]) gs = Inr (VRef (length hD))"
    unfolding gs using pepre nn sc1 first name by (rule find_param_first)
  define H where "H = (hF @ [ObjCell ps])[length hD := ObjCell (map_set ''value'' (VNum y) kvs)]"
  have comp: "prepare (Num y) spec h = (Inr (VRef (length hF)), H)"
    using lP lF
    by (simp add: prepare_def bindH_def json_clone_def doc p read_prop_def new_cell_def
          assign_prop_def returnH_def own cell_at_append cFp cFg fp H_def)
  have lenH: "length H = Suc (length hF)" by (simp add: H_def)
  have cH: "cell_at H a = cell_at hF a" if "a < length hF" "a \<noteq> length hD" for a
    using that by (simp add: H_def cell_at_update cell_at_append)
  have cHg: "cell_at H (length hD) = Some (ObjCell (map_set ''value'' (VNum y) kvs))"
    using lP lF by (simp add: H_def cell_at_update)
  have cHr: "cell_at H (length hF) = Some (ObjCell ps)"
    using lP lF by (simp add: H_def cell_at_update cell_at_append)
  have cHp: "cell_at H (length hP) = Some (ArrCell gs [])"
    using lP lF by (simp add: cH cFp)
  have scA: "same_cells (length h) (length hA) hA H"
    using lC lD lP lF by (simp add: same_cells_def cH cFP cPD cDC cCA)
  have scC: "same_cells (length hA) (length hC) hC H"
    using lC lD lP lF by (simp add: same_cells_def cH cFP cPD cDC)
  have scD: "same_cells (length hC) (length hD) hD H"
    using lD lP lF by (simp add: same_cells_def cH cFP cPD)
  have scE: "same_cells (length (hD @ [ObjCell kvs])) (length hP) hP H"
    using lP lF by (simp add: same_cells_def cH cFP)
  have scF: "same_cells (length (hP @ [ArrCell gs []])) (length hF) hF H"
    using lP lF by (simp add: same_cells_def cH)
  from lF obtain m where m: "length hF = Suc m" and mP: "length hP \<le> m"
    by (cases "length hF") auto
  from lP mP obtain m' where m': "m = Suc m'" and mD: "length hD \<le> m'"
    by (cases m) auto
  have pre_ok: "stringify_props (length hF) H ps_pre = Inr pre"
    using ppre scA by (rule stringify_parse(3)) (use lC lD lP lF in simp)
  have post_ok: "stringify_props (length hF) H ps_post = Inr post"
    using ppost scF by (rule stringify_parse(3)) simp
  have gpre_ok: "stringify_elems m H gpre = Inr epre"
    using pepre scC by (rule stringify_parse(2)) (use lD lP mP in simp)
  have gpost_ok: "stringify_elems m H gpost = Inr epost"
    using pepost scE by (rule stringify_parse(2)) (use mP in simp)
  have "stringify_props m' H (map_set ''value'' (VNum y) kvs) = Inr (map_set ''value'' (JNum y) efs)"
    using pefs scD by (rule stringify_props_map_set) (use mD in simp_all)
  then have entry_ok: "stringify m H (VRef (length hD))
        = Inr (Some (JObj (map_set ''value'' (JNum y) efs)))"
    by (simp add: m' cHg)
  have "stringify_elems m H (VRef (length hD) # gpost)
        = Inr (JObj (map_set ''value'' (JNum y) efs) # epost)"
    using entry_ok gpost_ok by (simp del: stringify.simps)
  with gpre_ok have "stringify_elems m H gs
        = Inr (epre @ JObj (map_set ''value'' (JNum y) efs) # epost)"
    unfolding gs by (rule stringify_elems_append)
  then have arr_ok: "stringify (length hF) H (VRef (length hP))
        = Inr (Some (JArr (epre @ JObj (map_set ''value'' (JNum y) efs) # epost)))"
    by (simp add: m cHp)
  have "stringify_props (length hF) H ((''params'', VRef (length hP)) # ps_post)
        = Inr ((''params'', JArr (epre @ JObj (map_set ''value'' (JNum y) efs) # epost)) # post)"
    using arr_ok post_ok by (simp del: stringify.simps)
  with pre_ok have "stringify_props (length hF) H ps
        = Inr (pre @ (''params'', JArr (epre @ JObj (map_set ''value'' (JNum y) efs) # epost)) # post)"
    unfolding ps by (rule stringify_props_append)
  then have "JSON_stringify H (VRef (length hF))
        = Inr (Some (JObj (pre @ (''params'',
             JArr (epre @ JObj (map_set ''value'' (JNum y) efs) # epost)) # post)))"
    by (simp add: JSON_stringify_def lenH cHr)
  with comp show ?thesis by blast
qed

lemma with_globalYear_absent:
  "(case map_of fs ''params'' of None \<Rightarrow> True | Some d \<Rightarrow> falsy_json d) \<Longrightarrow>
     with_globalYear y fs = map_set ''params'' (JArr [globalYear_entry y]) fs"
  by (auto simp: with_globalYear_def split: option.splits json.splits)

lemma prepare_config:
  assumes doc: "JSON_stringify h spec = Inr (Some (JObj fs))" and cfg: "config_fields fs"
  shows "\<exists>r H. prepare (Num y) spec h = (Inr (VRef r), H) \<and> length h \<le> r \<and>
               JSON_stringify H (VRef r) = Inr (Some (JObj (with_globalYear y fs)))"
proof -
  obtain ps hF where p: "parse_props fs h = (ps, hF)" by (cases "parse_props fs h")
  note le = parse_length(3) [OF p]
  show ?thesis
  proof (cases "\<exists>es. map_of fs ''params'' = Some (JArr es)")
    case False
    with cfg have np: "case map_of fs ''params'' of None \<Rightarrow> True | Some d \<Rightarrow> falsy_json d"
      by (auto simp: config_fields_def split: option.splits json.splits)
    from prepare_without_params [OF doc p np, of y] readback_without_params [OF p, of y]
      with_globalYear_absent [OF np, of y] le
    show ?thesis by auto
  next
    case True
    then obtain es where es: "map_of fs ''params'' = Some (JArr es)" by blast
    with cfg have nn: "list_all (\<lambda>e. e \<noteq> JNull) es" by (simp add: config_fields_def)
    from map_of_split [OF es] obtain pre post where
      fs: "fs = pre @ (''params'', JArr es) # post" and npre: "''params'' \<notin> fst ` set pre"
      by blast
    show ?thesis
    proof (cases "list_ex is_globalYear es")
      case False
      then have "with_globalYear y fs = pre @ (''params'', JArr (globalYear_entry y # es)) # post"
        using es npre by (simp add: with_globalYear_def inject_year_def fs map_set_split)
      with prepare_params_no_entry [OF doc [unfolded fs] npre p [unfolded fs] nn False, of y] le
      show ?thesis by auto
    next
      case True
      then have "\<exists>e \<in> set es. is_globalYear e" by (simp add: list_ex_iff)
      from split_list_first_prop [OF this] obtain epre e epost where
        split: "es = epre @ e # epost" and e: "is_globalYear e"
        and first: "\<forall>x \<in> set epre. \<not> is_globalYear x"
        by blast
      from e obtain efs where efs: "e = JObj efs" and
        named: "map_of efs ''name'' = Some (JStr ''globalYear'')"
        by (cases e) auto
      from first have first': "\<not> list_ex is_globalYear epre" by (simp add: list_ex_iff)
      from nn split have nn': "list_all (\<lambda>e. e \<noteq> JNull) epre" by simp
      have "with_globalYear y fs
            = pre @ (''params'', JArr (epre @ JObj (map_set ''value'' (JNum y) efs) # epost)) # post"
        using es npre True first' e
        by (simp add: with_globalYear_def inject_year_def fs map_set_split split efs
              update_first_split)
      with prepare_params_entry [OF doc [unfolded fs split efs] npre p [unfolded fs split efs]
             nn' first' named, of y] le
      show ?thesis by auto
    qed
  qed
qed

lemma cell_at_prefix:
  "take (length h) h' = h \<Longrightarrow> cell_at h a = Some c \<Longrightarrow> cell_at h' a = Some c"
proof -
  assume t: "take (length h) h' = h" and c: "cell_at h a = Some c"
  from c have a: "a < length h" and c': "h ! a = c" by (auto simp: cell_at_def split: if_splits)
  from t have "length h \<le> length h'" by (metis length_take min.cobounded1)
  moreover from t a have "h' ! a = h ! a" by (metis nth_take)
  ultimately show ?thesis using a c' by (simp add: cell_at_def)
qed

lemma stringify_extend:
  "stringify n h v = Inr x \<Longrightarrow> n \<le> m \<Longrightarrow> take (length h) h' = h \<Longrightarrow>
     stringify m h' v = Inr x"
  "stringify_elems n h xs = Inr js \<Longrightarrow> n \<le> m \<Longrightarrow> take (length h) h' = h \<Longrightarrow>
     stringify_elems m h' xs = Inr js"
  "stringify_props n h ps = Inr fs \<Longrightarrow> n \<le> m \<Longrightarrow> take (length h) h' = h \<Longrightarrow>
     stringify_props m h' ps = Inr fs"
proof (induction n h v and n h xs and n h ps arbitrary: x m and js m and fs m
       rule: stringify_stringify_elems_stringify_props.induct)
  case (8 n h a)
  from "8.prems"(2) obtain m' where m: "m = Suc m'" and le: "n \<le> m'" by (cases m) auto
  from "8.prems"(1) obtain c where c: "cell_at h a = Some c" by (auto split: option.splits)
  note c' = cell_at_prefix [OF "8.prems"(3) c]
  show ?case
  proof (cases c)
    case (ObjCell ps)
    with "8.prems"(1) c obtain fs where s: "stringify_props n h ps = Inr fs" and x: "x = Some (JObj fs)"
      by (auto split: sum.splits)
    from "8.IH"(1) [OF c ObjCell s le "8.prems"(3)] show ?thesis by (simp add: m c' ObjCell x)
  next
    case (ArrCell xs ps)
    with "8.prems"(1) c obtain js where s: "stringify_elems n h xs = Inr js" and x: "x = Some (JArr js)"
      by (auto split: sum.splits)
    from "8.IH"(2) [OF c ArrCell s le "8.prems"(3)] show ?thesis by (simp add: m c' ArrCell x)
  qed
next
  case (10 n h y ys)
  from "10.prems"(1) obtain j js' where 1: "stringify n h y = Inr j" and 2: "stringify_elems n h ys = Inr js'"
      and js: "js = (case j of None \<Rightarrow> JNull | Some d \<Rightarrow> d) # js'"
    by (auto split: sum.splits)
  from "10.IH"(1) [OF 1 "10.prems"(2,3)] "10.IH"(2) [OF 1 2 "10.prems"(2,3)] show ?case
    by (simp add: js)
next
  case (12 n h k y ps)
  from "12.prems"(1) obtain j fs' where 1: "stringify n h y = Inr j" and 2: "stringify_props n h ps = Inr fs'"
      and fs: "fs = (case j of None \<Rightarrow> fs' | Some d \<Rightarrow> (k, d) # fs')"
    by (auto split: sum.splits)
  from "12.IH"(1) [OF 1 "12.prems"(2,3)] "12.IH"(2) [OF 1 2 "12.prems"(2,3)] show ?case
    by (simp add: fs)
qed auto

lemma JSON_stringify_extend:
  assumes "JSON_stringify h v = Inr x" "take (length h) h' = h"
  shows "JSON_stringify h' v = Inr x"
proof -
  from assms(2) have le: "length h \<le> length h'" by (metis length_take min.cobounded1)
  from stringify_extend(1) [OF assms(1) [unfolded JSON_stringify_def] le assms(2)]
  show ?thesis by (simp add: JSON_stringify_def)
qed

text \<open>
  C7. For every value that \<open>JSON.stringify\<close> writes as a configuration object (an object
  whose \<open>params\<close> is absent, falsy, or a list without \<open>null\<close> entries) and every numeric
  current year, \<open>prepareSpec\<close> returns normally a reference to a new object. Written back
  as a document, that object is the input document in which the first \<open>params\<close> entry
  named \<open>globalYear\<close> has the current year as its \<open>value\<close>, where it stood, or, without
  such an entry, with the entry \<open>{name: "globalYear", value: currentYear}\<close> put in front of
  the list (the list being created when there was none); every other entry and property
  is as it was. The copy is deep and the input is not mutated: every cell that existed
  before the call is unchanged, so the input still writes as the same document, no new
  cell refers to an old one, and nothing of the world but the heap changes.
\<close>

theorem prepareSpec_injects_year:
  assumes "JSON_stringify (heap w) spec = Inr (Some (JObj fs))"
      and "config_fields fs"
      and "state_year CurrentYear w = Num y"
  shows "\<exists>r. fst (prepareSpec spec w) = Inr (VRef r)
             \<and> length (heap w) \<le> r
             \<and> JSON_stringify (heap (snd (prepareSpec spec w))) (VRef r)
                 = Inr (Some (JObj (with_globalYear y fs)))
             \<and> take (length (heap w)) (heap (snd (prepareSpec spec w))) = heap w
             \<and> JSON_stringify (heap (snd (prepareSpec spec w))) spec = Inr (Some (JObj fs))
             \<and> fresh_closed (length (heap w)) (heap (snd (prepareSpec spec w)))
             \<and> (snd (prepareSpec spec w))\<lparr>heap := heap w\<rparr> = w"
proof -
  from prepare_config [OF assms(1,2), of y] obtain r H where
    c: "prepare (Num y) spec (heap w) = (Inr (VRef r), H)" and r: "length (heap w) \<le> r" and
    s: "JSON_stringify H (VRef r) = Inr (Some (JObj (with_globalYear y fs)))"
    by blast
  have "untouched (heap w) (heap w)" by (simp add: untouched_def fresh_closed_def)
  from keepsD [OF keeps_prepare this c] have "untouched (heap w) H" by simp
  then have t: "take (length (heap w)) H = heap w" and f: "fresh_closed (length (heap w)) H"
    by (simp_all add: untouched_def)
  from assms(1) t have "JSON_stringify H spec = Inr (Some (JObj fs))"
    by (rule JSON_stringify_extend)
  with c r s t f assms(3) show ?thesis by (simp add: prepareSpec_def)
qed

theorem prepareSpec_injects_year_witness:
  "\<exists>r. fst (prepareSpec (VRef 2) chart_page) = Inr (VRef r)
       \<and> length chart_heap \<le> r
       \<and> JSON_stringify (heap (snd (prepareSpec (VRef 2) chart_page))) (VRef r)
           = Inr (Some (JObj [(''params'',
               JArr [JObj [(''name'', JStr ''globalYear''), (''value'', JNum 2020)],
                     JObj [(''name'', JStr ''other''), (''value'', JNum 1)]])]))
       \<and> take (length chart_heap) (heap (snd (prepareSpec (VRef 2) chart_page))) = chart_heap
       \<and> JSON_stringify (heap (snd (prepareSpec (VRef 2) chart_page))) (VRef 2)
           = Inr (Some (JObj [(''params'',
               JArr [JObj [(''name'', JStr ''other''), (''value'', JNum 1)]])]))"
proof -
  have 1: "JSON_stringify (heap chart_page) (VRef 2)
           = Inr (Some (JObj [(''params'', JArr [JObj [(''name'', JStr ''other''), (''value'', JNum 1)]])]))"
    by (simp add: JSON_stringify_def constructor_def cell_at_def eval_nat_numeral)
  have 2: "config_fields [(''params'', JArr [JObj [(''name'', JStr ''other''), (''value'', JNum 1)]])]"
    by (simp add: config_fields_def)
  have 3: "state_year CurrentYear chart_page = Num 2020"
    by (simp add: state_year_def)
  have w: "with_globalYear 2020
             [(''params'', JArr [JObj [(''name'', JStr ''other''), (''value'', JNum 1)]])]
           = [(''params'',
               JArr [JObj [(''name'', JStr ''globalYear''), (''value'', JNum 2020)],
                     JObj [(''name'', JStr ''other''), (''value'', JNum 1)]])]"
    by (simp add: with_globalYear_def inject_year_def globalYear_entry_def)
  have h: "heap chart_page = chart_heap"
    by (simp add: constructor_def)
  from prepareSpec_injects_year [OF 1 2 3] show ?thesis
    unfolding w h by blast
qed

section \<open>Failures of loadVisualization\<close>





end
